theory Spec2Isabelle
  imports Main "HOL-Library.Word" "HOL-Library.Monad_Syntax"
begin

unbundle bit_operations_syntax

section \<open>Configuration and machine words\<close>

text \<open>
  The development follows \<^verbatim>\<open>tinySTM/src/stm.c\<close> in the configuration the file fixes
  (\<^verbatim>\<open>DESIGN = WRITE_BACK_CTL\<close>) with the default contention manager
  (\<^verbatim>\<open>CM = CM_SUICIDE\<close>) and none of the optional features compiled in
  (\<^verbatim>\<open>SUPPORTER_THREAD\<close>, \<^verbatim>\<open>IRREVOCABLE_ENABLED\<close>, \<^verbatim>\<open>INTERNAL_STATS\<close>,
  \<^verbatim>\<open>CONFLICT_TRACKING\<close>, \<^verbatim>\<open>USE_BLOOM_FILTER\<close>, \<^verbatim>\<open>EPOCH_GC\<close>, \<^verbatim>\<open>HYBRID_ASF\<close>,
  \<^verbatim>\<open>NO_DUPLICATES_IN_RW_SETS\<close>, \<^verbatim>\<open>NDEBUG\<close>), on an LP64 target:
  \<^verbatim>\<open>stm_word_t\<close> is a 64-bit unsigned word, \<^verbatim>\<open>sizeof(w_entry_t) = 64\<close>,
  \<^verbatim>\<open>sizeof(r_entry_t) = 16\<close> and \<^verbatim>\<open>LOCK_SHIFT = 3 + 2\<close>.

  Atomic operations are read with their sequential meaning: a load returns the value last
  stored, and between two steps of one call no other thread runs. A loop that waits for
  another thread therefore never ends in this model; such loops are partial functions and
  \<open>None\<close> stands for a call that does not return.
\<close>

type_synonym stm_word = "64 word"

definition OWNED_MASK :: stm_word where
  "OWNED_MASK = 1"

definition WRITE_MASK :: stm_word where
  "WRITE_MASK = 1"

definition OWNED_BITS :: nat where
  "OWNED_BITS = 1"

definition LOCK_BITS :: nat where
  "LOCK_BITS = OWNED_BITS"

definition MAX_THREADS :: stm_word where
  "MAX_THREADS = 8192"

definition VERSION_MAX :: stm_word where
  "VERSION_MAX = drop_bit LOCK_BITS (NOT 0) - MAX_THREADS"

definition LOCK_GET_OWNED :: "stm_word \<Rightarrow> stm_word" where
  "LOCK_GET_OWNED l = l AND OWNED_MASK"

definition LOCK_GET_WRITE :: "stm_word \<Rightarrow> stm_word" where
  "LOCK_GET_WRITE l = l AND WRITE_MASK"

definition LOCK_SET_ADDR_WRITE :: "stm_word \<Rightarrow> stm_word" where
  "LOCK_SET_ADDR_WRITE a = a OR WRITE_MASK"

definition LOCK_GET_ADDR :: "stm_word \<Rightarrow> stm_word" where
  "LOCK_GET_ADDR l = l AND NOT OWNED_MASK"

definition LOCK_GET_TIMESTAMP :: "stm_word \<Rightarrow> stm_word" where
  "LOCK_GET_TIMESTAMP l = drop_bit OWNED_BITS l"

definition LOCK_SET_TIMESTAMP :: "stm_word \<Rightarrow> stm_word" where
  "LOCK_SET_TIMESTAMP t = push_bit OWNED_BITS t"

definition LOCK_UNIT :: stm_word where
  "LOCK_UNIT = NOT 0"

definition LOCK_ARRAY_LOG_SIZE :: nat where
  "LOCK_ARRAY_LOG_SIZE = 20"

definition LOCK_ARRAY_SIZE :: nat where
  "LOCK_ARRAY_SIZE = 2 ^ LOCK_ARRAY_LOG_SIZE"

definition LOCK_MASK :: stm_word where
  "LOCK_MASK = of_nat (LOCK_ARRAY_SIZE - 1)"

definition LOCK_SHIFT :: nat where
  "LOCK_SHIFT = 3 + 2"

text \<open>\<^verbatim>\<open>GET_LOCK(a)\<close> is \<^verbatim>\<open>locks + LOCK_IDX(a)\<close>: a lock pointer is its index in the table.\<close>

definition LOCK_IDX :: "stm_word \<Rightarrow> nat" where
  "LOCK_IDX a = unat (drop_bit LOCK_SHIFT a AND LOCK_MASK)"

definition GET_LOCK :: "stm_word \<Rightarrow> nat" where
  "GET_LOCK a = LOCK_IDX a"

definition RW_SET_SIZE :: nat where
  "RW_SET_SIZE = 4096"

definition sizeof_r_entry :: nat where
  "sizeof_r_entry = 16"

definition sizeof_w_entry :: nat where
  "sizeof_w_entry = 64"

section \<open>Data model\<close>

datatype tx_status =
  TX_IDLE | TX_ACTIVE | TX_COMMITTED | TX_ABORTED
  | TX_COMMITTING | TX_ABORTING | TX_KILLED | TX_IRREVOCABLE

fun status_word :: "tx_status \<Rightarrow> stm_word" where
  "status_word TX_IDLE = 0"
| "status_word TX_ACTIVE = 1"
| "status_word TX_COMMITTED = 2"
| "status_word TX_ABORTED = 4"
| "status_word TX_COMMITTING = 3"
| "status_word TX_ABORTING = 5"
| "status_word TX_KILLED = 7"
| "status_word TX_IRREVOCABLE = 9"

definition IS_ACTIVE :: "tx_status \<Rightarrow> bool" where
  "IS_ACTIVE s = (status_word s AND 1 = status_word TX_ACTIVE)"

text \<open>
  Read-set entry. The read set is the list of its \<^verbatim>\<open>nb_entries\<close> live entries, oldest
  first, together with the capacity \<^verbatim>\<open>size\<close> of the array; slots beyond
  \<^verbatim>\<open>nb_entries\<close> are never read by the code.
\<close>

record r_entry =
  r_version :: stm_word
  r_lock :: nat

record r_set_t =
  r_entries :: "r_entry list"
  r_size :: nat

text \<open>
  Write-set entry. \<^verbatim>\<open>no_drop\<close> is a C \<^verbatim>\<open>int\<close> only ever tested with \<^verbatim>\<open>!\<close>, so it is a
  Boolean here. The write set keeps the address of its array, because a lock word owned by
  a committing transaction holds the address of one of its entries.
\<close>

record w_entry =
  w_addr :: stm_word
  w_value :: stm_word
  w_mask :: stm_word
  w_version :: stm_word
  w_lock :: nat
  w_no_drop :: bool

record w_set_t =
  w_base :: stm_word
  w_entries :: "w_entry list"
  w_size :: nat
  nb_acquired :: int

text \<open>
  Modelled from the spec: \<^verbatim>\<open>stm_tx_attr_t\<close> is declared in \<^verbatim>\<open>stm.h\<close>, which is not part
  of the sources; the attributes the core reads are \<open>read_only\<close> and \<open>no_retry\<close>
  (``\<open>attr\<close> options: read_only, no_retry, visible_reads (ignored), no_extend (ignored)'').
\<close>

record stm_tx_attr_t =
  read_only :: bool
  no_retry :: bool

record stm_tx =
  tx_attr :: stm_tx_attr_t
  tx_status :: tx_status
  tx_start :: stm_word
  tx_end :: stm_word
  r_set :: r_set_t
  w_set :: w_set_t
  tx_ro :: bool
  tx_can_extend :: bool
  tx_nesting :: int

text \<open>
  Abort reasons. Modelled from the spec: the \<^verbatim>\<open>STM_ABORT_*\<close> constants are declared in
  \<^verbatim>\<open>stm.h\<close>, which is not part of the sources; the spec lists the reasons and says that
  an abort carrying the \<open>EXPLICIT\<close> bit returns to the caller instead of jumping.
  \<open>STM_ABORT_EXPLICIT_OR r\<close> stands for \<^verbatim>\<open>r | STM_ABORT_EXPLICIT\<close>.
\<close>

datatype abort_reason =
  STM_ABORT_VAL_READ | STM_ABORT_VAL_WRITE | STM_ABORT_WW_CONFLICT
  | STM_ABORT_VALIDATE | STM_ABORT_RO_WRITE | STM_ABORT_EXPLICIT_OR nat

fun has_STM_ABORT_EXPLICIT :: "abort_reason \<Rightarrow> bool" where
  "has_STM_ABORT_EXPLICIT (STM_ABORT_EXPLICIT_OR _) = True"
| "has_STM_ABORT_EXPLICIT _ = False"

datatype hook = On_init | On_exit | On_start | On_precommit | On_commit | On_abort

text \<open>
  Process-wide state: application memory (one word per address), the lock table, the
  global clock, the quiescence variables, the registry of descriptors (addresses, head of
  the linked list first), the calling thread's \<^verbatim>\<open>thread_tx\<close> slot, the descriptors the
  allocator has handed out, and the numbers of registered callbacks. The callbacks
  themselves belong to external modules: a call is recorded in \<open>cb_calls\<close> (hook and
  index, latest first). The C library's allocator is outside the repository as well; a
  bump allocator between \<open>heap_brk\<close> and \<open>heap_limit\<close> that never reuses memory stands
  for it.
\<close>

record stm_global =
  mem :: "stm_word \<Rightarrow> stm_word"
  locks :: "nat \<Rightarrow> stm_word"
  gclock :: stm_word
  quiesce :: stm_word
  threads_nb :: stm_word
  threads :: "nat list"
  thread_tx :: "nat option"
  descriptors :: "nat \<Rightarrow> stm_tx option"
  nb_init_cb :: nat
  nb_start_cb :: nat
  nb_precommit_cb :: nat
  nb_commit_cb :: nat
  nb_abort_cb :: nat
  cb_calls :: "(hook \<times> nat) list"
  heap_brk :: nat
  heap_limit :: nat

text \<open>
  What can stop the process or leave the C semantics: \<^verbatim>\<open>exit(1)\<close> after a failed
  allocation, a failed \<^verbatim>\<open>assert\<close>, signed overflow of a set size, and an access through a
  pointer that is not the address of a write-set entry.
\<close>

datatype fault = Exit_failure | Assertion_failure | Int_overflow | Invalid_access

section \<open>Read-set and write-set lookup\<close>

fun stm_has_read_loop :: "r_entry list \<Rightarrow> nat \<Rightarrow> r_entry option" where
  "stm_has_read_loop [] lock = None"
| "stm_has_read_loop (r # rs) lock =
     (if r_lock r = lock then Some r else stm_has_read_loop rs lock)"

definition stm_has_read :: "stm_tx \<Rightarrow> nat \<Rightarrow> r_entry option" where
  "stm_has_read tx lock = stm_has_read_loop (r_entries (r_set tx)) lock"

text \<open>The result of \<^verbatim>\<open>stm_has_written\<close> is the index of the entry found (its pointer).\<close>

fun stm_has_written_loop :: "w_entry list \<Rightarrow> stm_word \<Rightarrow> nat \<Rightarrow> nat option" where
  "stm_has_written_loop [] addr i = None"
| "stm_has_written_loop (w # ws) addr i =
     (if w_addr w = addr then Some i else stm_has_written_loop ws addr (Suc i))"

definition stm_has_written :: "stm_tx \<Rightarrow> stm_word \<Rightarrow> nat option" where
  "stm_has_written tx addr = stm_has_written_loop (w_entries (w_set tx)) addr 0"

section \<open>Validation and snapshot extension\<close>

text \<open>Address of entry \<open>k\<close> of the write-set array, \<^verbatim>\<open>tx->w_set.entries + k\<close>.\<close>

definition w_entry_ptr :: "w_set_t \<Rightarrow> nat \<Rightarrow> stm_word" where
  "w_entry_ptr ws k = w_base ws + of_nat (sizeof_w_entry * k)"

text \<open>
  \<^verbatim>\<open>tx->w_set.entries <= w && w < tx->w_set.entries + tx->w_set.nb_entries\<close>, a comparison
  of addresses; the end of an allocated array does not wrap around.
\<close>

definition in_w_set :: "w_set_t \<Rightarrow> stm_word \<Rightarrow> bool" where
  "in_w_set ws p \<longleftrightarrow>
     unat (w_base ws) \<le> unat p \<and>
     unat p < unat (w_base ws) + sizeof_w_entry * length (w_entries ws)"

text \<open>
  Reading a field through \<^verbatim>\<open>(w_entry_t *)LOCK_GET_ADDR(l)\<close>: defined when the pointer is
  the address of a live entry.
\<close>

definition w_deref :: "w_set_t \<Rightarrow> stm_word \<Rightarrow> fault + w_entry" where
  "w_deref ws p =
     (let off = unat p - unat (w_base ws) in
      if off mod sizeof_w_entry = 0 \<and> off div sizeof_w_entry < length (w_entries ws)
      then Inr (w_entries ws ! (off div sizeof_w_entry))
      else Inl Invalid_access)"

fun stm_validate_loop :: "w_set_t \<Rightarrow> (nat \<Rightarrow> stm_word) \<Rightarrow> r_entry list \<Rightarrow> fault + bool" where
  "stm_validate_loop ws lk [] = Inr True"
| "stm_validate_loop ws lk (r # rs) =
     (let l = lk (r_lock r) in
      if LOCK_GET_OWNED l \<noteq> 0 then
        (let w = LOCK_GET_ADDR l in
         if \<not> in_w_set ws w then Inr False
         else (case w_deref ws w of
                 Inl f \<Rightarrow> Inl f
               | Inr e \<Rightarrow>
                   if w_version e \<noteq> r_version r then Inr False
                   else stm_validate_loop ws lk rs))
      else if LOCK_GET_TIMESTAMP l \<noteq> r_version r then Inr False
      else stm_validate_loop ws lk rs)"

definition stm_validate :: "stm_tx \<Rightarrow> stm_global \<Rightarrow> fault + bool" where
  "stm_validate tx g = stm_validate_loop (w_set tx) (locks g) (r_entries (r_set tx))"

definition stm_extend :: "stm_tx \<Rightarrow> stm_global \<Rightarrow> fault + bool \<times> stm_tx" where
  "stm_extend tx g =
     (let now = gclock g in
      if now \<ge> VERSION_MAX then Inr (False, tx)
      else (case stm_validate tx g of
              Inl f \<Rightarrow> Inl f
            | Inr ok \<Rightarrow> if ok then Inr (True, tx\<lparr>tx_end := now\<rparr>) else Inr (False, tx)))"

section \<open>Results of the operations\<close>

text \<open>
  An operation of the library either returns to its caller, or leaves through
  \<^verbatim>\<open>siglongjmp(tx->env, reason)\<close> back to the start of the transaction, or stops the
  process. Each outcome carries the descriptor and the process state it leaves behind.
\<close>

datatype 'a result =
  Returns 'a stm_tx stm_global
  | Longjmp abort_reason stm_tx stm_global
  | Fault fault

text \<open>The code after a call of \<^verbatim>\<open>stm_rollback\<close> that came back: \<^verbatim>\<open>return v\<close>.\<close>

fun then_return :: "unit result \<Rightarrow> 'a \<Rightarrow> 'a result" where
  "then_return (Returns _ tx g) v = Returns v tx g"
| "then_return (Longjmp r tx g) v = Longjmp r tx g"
| "then_return (Fault f) v = Fault f"

section \<open>Allocation of the sets\<close>

definition INT_MAX :: nat where
  "INT_MAX = 2 ^ 31 - 1"

definition malloc :: "stm_global \<Rightarrow> nat \<Rightarrow> (nat \<times> stm_global) option" where
  "malloc g n =
     (if heap_brk g + n \<le> heap_limit g
      then Some (heap_brk g, g\<lparr>heap_brk := heap_brk g + n\<rparr>)
      else None)"

definition realloc :: "stm_global \<Rightarrow> nat \<Rightarrow> (nat \<times> stm_global) option" where
  "realloc g n = malloc g n"

definition stm_allocate_rs_entries ::
    "stm_tx \<Rightarrow> stm_global \<Rightarrow> bool \<Rightarrow> fault + stm_tx \<times> stm_global" where
  "stm_allocate_rs_entries tx g ext =
     (if ext then
        (if 2 * r_size (r_set tx) > INT_MAX then Inl Int_overflow
         else (case realloc g (2 * r_size (r_set tx) * sizeof_r_entry) of
                 None \<Rightarrow> Inl Exit_failure
               | Some (p, g') \<Rightarrow>
                   Inr (tx\<lparr>r_set := (r_set tx)\<lparr>r_size := 2 * r_size (r_set tx)\<rparr>\<rparr>, g')))
      else (case malloc g (r_size (r_set tx) * sizeof_r_entry) of
              None \<Rightarrow> Inl Exit_failure
            | Some (p, g') \<Rightarrow> Inr (tx, g')))"

definition stm_allocate_ws_entries ::
    "stm_tx \<Rightarrow> stm_global \<Rightarrow> bool \<Rightarrow> fault + stm_tx \<times> stm_global" where
  "stm_allocate_ws_entries tx g ext =
     (if ext then
        (if 2 * w_size (w_set tx) > INT_MAX then Inl Int_overflow
         else (case realloc g (2 * w_size (w_set tx) * sizeof_w_entry) of
                 None \<Rightarrow> Inl Exit_failure
               | Some (p, g') \<Rightarrow>
                   Inr (tx\<lparr>w_set := (w_set tx)\<lparr>w_size := 2 * w_size (w_set tx),
                                                 w_base := of_nat p\<rparr>\<rparr>, g')))
      else (case malloc g (w_size (w_set tx) * sizeof_w_entry) of
              None \<Rightarrow> Inl Exit_failure
            | Some (p, g') \<Rightarrow> Inr (tx\<lparr>w_set := (w_set tx)\<lparr>w_base := of_nat p\<rparr>\<rparr>, g')))"

section \<open>Callbacks, quiescence and clock roll-over\<close>

definition run_callbacks :: "hook \<Rightarrow> nat \<Rightarrow> stm_global \<Rightarrow> stm_global" where
  "run_callbacks h n g = g\<lparr>cb_calls := rev (map (\<lambda>cb. (h, cb)) [0 ..< n]) @ cb_calls g\<rparr>"

definition rollover_clock :: "stm_global \<Rightarrow> stm_global" where
  "rollover_clock g = g\<lparr>gclock := 0, locks := (\<lambda>_. 0)\<rparr>"

text \<open>
  The loop of \<^verbatim>\<open>stm_quiesce_barrier\<close>. \<^verbatim>\<open>pthread_cond_wait\<close> comes back when another
  thread signals; no other thread runs here, so the wait is a step that changes nothing.
\<close>

partial_function (option) stm_quiesce_barrier_loop ::
    "(stm_global \<Rightarrow> stm_global) option \<Rightarrow> stm_global \<Rightarrow> stm_global option" where
  "stm_quiesce_barrier_loop f g =
     (if quiesce g \<noteq> 0 then
        (if threads_nb g = 0 then
           stm_quiesce_barrier_loop f
             ((case f of None \<Rightarrow> g | Some rc \<Rightarrow> rc g)\<lparr>quiesce := 0\<rparr>)
         else stm_quiesce_barrier_loop f g)
      else Some g)"

definition stm_quiesce_barrier ::
    "stm_tx option \<Rightarrow> (stm_global \<Rightarrow> stm_global) option \<Rightarrow> stm_global
       \<Rightarrow> (fault + stm_global) option" where
  "stm_quiesce_barrier tx f g =
     (if \<not> (tx = None \<or> \<not> IS_ACTIVE (tx_status (the tx))) then Some (Inl Assertion_failure)
      else
        (let g1 = g\<lparr>threads_nb := threads_nb g - 1\<rparr>;
             g2 = (if quiesce g1 = 0 then g1\<lparr>quiesce := 1\<rparr> else g1)
         in do {
           g3 \<leftarrow> stm_quiesce_barrier_loop f g2;
           Some (Inr (g3\<lparr>threads_nb := threads_nb g3 + 1\<rparr>))
         }))"

partial_function (option) stm_check_quiesce_wait :: "stm_global \<Rightarrow> unit option" where
  "stm_check_quiesce_wait g =
     (if quiesce g = 2 then stm_check_quiesce_wait g else Some ())"

definition stm_check_quiesce ::
    "stm_tx \<Rightarrow> stm_global \<Rightarrow> (fault + int \<times> stm_tx) option" where
  "stm_check_quiesce tx g =
     (if \<not> IS_ACTIVE (tx_status tx) then Some (Inl Assertion_failure)
      else if quiesce g = 2 then
        (let s = tx_status tx; tx1 = tx\<lparr>tx_status := TX_IDLE\<rparr> in
         do {
           _ \<leftarrow> stm_check_quiesce_wait g;
           Some (Inr (1, tx1\<lparr>tx_status := s\<rparr>))
         })
      else Some (Inr (0, tx)))"

section \<open>Preparing and rolling back a transaction\<close>

partial_function (option) stm_prepare ::
    "stm_tx \<Rightarrow> stm_global \<Rightarrow> (fault + stm_tx \<times> stm_global) option" where
  "stm_prepare tx g =
     (let tx1 = tx\<lparr>tx_start := gclock g, tx_end := gclock g, tx_can_extend := True\<rparr> in
      if tx_start tx1 \<ge> VERSION_MAX then
        do {
          b \<leftarrow> stm_quiesce_barrier (Some tx1) (Some rollover_clock) g;
          (case b of
             Inl f \<Rightarrow> Some (Inl f)
           | Inr g' \<Rightarrow> stm_prepare tx1 g')
        }
      else
        (let tx2 = tx1\<lparr>w_set := (w_set tx1)\<lparr>nb_acquired := 0, w_entries := []\<rparr>,
                       r_set := (r_set tx1)\<lparr>r_entries := []\<rparr>,
                       tx_status := TX_ACTIVE\<rparr>
         in do {
           q \<leftarrow> stm_check_quiesce tx2 g;
           (case q of
              Inl f \<Rightarrow> Some (Inl f)
            | Inr (_, tx3) \<Rightarrow> Some (Inr (tx3, g)))
         }))"

text \<open>
  The lock-release loop of \<^verbatim>\<open>stm_rollback\<close>, over the entries from the last one
  downwards. The \<^verbatim>\<open>do\<close> body runs before the test, so with the entries exhausted and
  \<^verbatim>\<open>nb_acquired\<close> still positive the code reads below the array.
\<close>

fun stm_rollback_loop ::
    "w_entry list \<Rightarrow> int \<Rightarrow> (nat \<Rightarrow> stm_word) \<Rightarrow> fault + int \<times> (nat \<Rightarrow> stm_word)" where
  "stm_rollback_loop [] n lk = Inl Invalid_access"
| "stm_rollback_loop (w # ws) n lk =
     (if \<not> w_no_drop w then
        (let n' = n - 1;
             lk' = lk(w_lock w := LOCK_SET_TIMESTAMP (w_version w))
         in if n' > 0 then stm_rollback_loop ws n' lk' else Inr (n', lk'))
      else if n > 0 then stm_rollback_loop ws n lk else Inr (n, lk))"

definition stm_rollback_locks :: "stm_tx \<Rightarrow> stm_global \<Rightarrow> fault + stm_tx \<times> stm_global" where
  "stm_rollback_locks tx g =
     (if nb_acquired (w_set tx) > 0 then
        (case stm_rollback_loop (rev (w_entries (w_set tx))) (nb_acquired (w_set tx)) (locks g) of
           Inl f \<Rightarrow> Inl f
         | Inr (n, lk) \<Rightarrow> Inr (tx\<lparr>w_set := (w_set tx)\<lparr>nb_acquired := n\<rparr>\<rparr>, g\<lparr>locks := lk\<rparr>))
      else Inr (tx, g))"

definition stm_rollback :: "stm_tx \<Rightarrow> stm_global \<Rightarrow> abort_reason \<Rightarrow> unit result option" where
  "stm_rollback tx g reason =
     (if \<not> IS_ACTIVE (tx_status tx) then Some (Fault Assertion_failure)
      else (case stm_rollback_locks tx g of
              Inl f \<Rightarrow> Some (Fault f)
            | Inr (tx1, g1) \<Rightarrow>
                (let tx2 = tx1\<lparr>tx_status := TX_ABORTED, tx_nesting := 1\<rparr>;
                     g2 = run_callbacks On_abort (nb_abort_cb g1) g1
                 in if no_retry (tx_attr tx2) \<or> has_STM_ABORT_EXPLICIT reason
                    then Some (Returns () (tx2\<lparr>tx_nesting := 0\<rparr>) g2)
                    else do {
                      p \<leftarrow> stm_prepare tx2 g2;
                      (case p of
                         Inl f \<Rightarrow> Some (Fault f)
                       | Inr (tx3, g3) \<Rightarrow> Some (Longjmp reason tx3 g3))
                    })))"

section \<open>Transactional load\<close>

text \<open>
  The lock--value--lock loop of \<^verbatim>\<open>stm_read_invisible\<close>, from the labels
  \<^verbatim>\<open>restart\<close> (\<open>reload\<close> set: the lock is loaded again) and \<^verbatim>\<open>restart_no_load\<close>
  (the lock word \<open>l0\<close> is kept). It ends with the value and version read, or where the
  code calls \<^verbatim>\<open>stm_rollback(tx, STM_ABORT_VAL_READ)\<close>.
\<close>

datatype read_step =
  Read_ok stm_word stm_word stm_tx
  | Read_abort stm_tx
  | Read_fault fault

partial_function (option) stm_read_loop ::
    "stm_global \<Rightarrow> stm_word \<Rightarrow> nat \<Rightarrow> bool \<Rightarrow> stm_word \<Rightarrow> stm_tx \<Rightarrow> read_step option" where
  "stm_read_loop g addr lock reload l0 tx =
     (let l = (if reload then locks g lock else l0) in
      if LOCK_GET_WRITE l \<noteq> 0 then
        (if l = LOCK_UNIT then stm_read_loop g addr lock True l tx
         else stm_read_loop g addr lock True l tx)
      else
        (let val = mem g addr;
             l2 = locks g lock
         in if l \<noteq> l2 then stm_read_loop g addr lock False l2 tx
            else
              (let version = LOCK_GET_TIMESTAMP l in
               if version > tx_end tx then
                 (if tx_ro tx \<or> \<not> tx_can_extend tx then Some (Read_abort tx)
                  else (case stm_extend tx g of
                          Inl f \<Rightarrow> Some (Read_fault f)
                        | Inr (ok, tx') \<Rightarrow>
                            if \<not> ok then Some (Read_abort tx')
                            else (let l' = locks g lock in
                                  if l' \<noteq> l2 then stm_read_loop g addr lock False l2 tx'
                                  else Some (Read_ok val version tx'))))
               else Some (Read_ok val version tx))))"

definition stm_read_invisible ::
    "stm_tx \<Rightarrow> stm_global \<Rightarrow> stm_word \<Rightarrow> stm_word result option" where
  "stm_read_invisible tx g addr =
     (if \<not> IS_ACTIVE (tx_status tx) then Some (Fault Assertion_failure)
      else
        (let written = stm_has_written tx addr in
         if written \<noteq> None \<and> w_mask (w_entries (w_set tx) ! the written) = NOT 0
         then Some (Returns (w_value (w_entries (w_set tx) ! the written)) tx g)
         else
           (let lock = GET_LOCK addr in
            do {
              st \<leftarrow> stm_read_loop g addr lock True 0 tx;
              (case st of
                 Read_fault f \<Rightarrow> Some (Fault f)
               | Read_abort tx1 \<Rightarrow>
                   do {
                     r \<leftarrow> stm_rollback tx1 g STM_ABORT_VAL_READ;
                     Some (then_return r 0)
                   }
               | Read_ok val version tx1 \<Rightarrow>
                   (let val1 =
                          (case written of
                             None \<Rightarrow> val
                           | Some k \<Rightarrow>
                               (val AND NOT (w_mask (w_entries (w_set tx1) ! k)))
                               OR (w_value (w_entries (w_set tx1) ! k)
                                   AND w_mask (w_entries (w_set tx1) ! k)))
                    in if \<not> tx_ro tx1 then
                         (case (if length (r_entries (r_set tx1)) = r_size (r_set tx1)
                                then stm_allocate_rs_entries tx1 g True
                                else Inr (tx1, g)) of
                            Inl f \<Rightarrow> Some (Fault f)
                          | Inr (tx2, g2) \<Rightarrow>
                              Some (Returns val1
                                (tx2\<lparr>r_set := (r_set tx2)\<lparr>r_entries :=
                                   r_entries (r_set tx2)
                                   @ [\<lparr>r_version = version, r_lock = lock\<rparr>]\<rparr>\<rparr>) g2))
                       else Some (Returns val1 tx1 g)))
            })))"

section \<open>Transactional store\<close>

partial_function (option) stm_write_wait :: "stm_global \<Rightarrow> nat \<Rightarrow> stm_word option" where
  "stm_write_wait g lock =
     (let l = locks g lock in
      if LOCK_GET_OWNED l \<noteq> 0 then
        (if l = LOCK_UNIT then stm_write_wait g lock else stm_write_wait g lock)
      else Some l)"

text \<open>The result is the index of the write-set entry, or \<open>None\<close> for \<^verbatim>\<open>NULL\<close>.\<close>

definition stm_write ::
    "stm_tx \<Rightarrow> stm_global \<Rightarrow> stm_word \<Rightarrow> stm_word \<Rightarrow> stm_word \<Rightarrow> nat option result option" where
  "stm_write tx g addr val msk =
     (if \<not> IS_ACTIVE (tx_status tx) then Some (Fault Assertion_failure)
      else if tx_ro tx then
        do {
          r \<leftarrow> stm_rollback (tx\<lparr>tx_attr := (tx_attr tx)\<lparr>read_only := False\<rparr>\<rparr>) g
                 STM_ABORT_RO_WRITE;
          Some (then_return r None)
        }
      else
        (let lock = GET_LOCK addr in
         do {
           l \<leftarrow> stm_write_wait g lock;
           (case stm_has_written tx addr of
              Some k \<Rightarrow>
                (let w = w_entries (w_set tx) ! k;
                     w' = w\<lparr>w_value := (w_value w AND NOT msk) OR (val AND msk),
                            w_mask := w_mask w OR msk\<rparr>
                 in Some (Returns (Some k)
                      (tx\<lparr>w_set := (w_set tx)\<lparr>w_entries := (w_entries (w_set tx))[k := w']\<rparr>\<rparr>)
                      g))
            | None \<Rightarrow>
                (let version = LOCK_GET_TIMESTAMP l in
                 if version > tx_end tx \<and>
                    (\<not> tx_can_extend tx \<or> stm_has_read tx lock \<noteq> None)
                 then do {
                   r \<leftarrow> stm_rollback tx g STM_ABORT_VAL_WRITE;
                   Some (then_return r None)
                 }
                 else
                   (case (if length (w_entries (w_set tx)) = w_size (w_set tx)
                          then stm_allocate_ws_entries tx g True
                          else Inr (tx, g)) of
                      Inl f \<Rightarrow> Some (Fault f)
                    | Inr (tx1, g1) \<Rightarrow>
                        (let w = \<lparr>w_addr = addr,
                                  w_value = (if msk = 0 then 0 else val),
                                  w_mask = msk,
                                  w_version = version,
                                  w_lock = lock,
                                  w_no_drop = True\<rparr>
                         in Some (Returns (Some (length (w_entries (w_set tx1))))
                              (tx1\<lparr>w_set := (w_set tx1)\<lparr>w_entries :=
                                 w_entries (w_set tx1) @ [w]\<rparr>\<rparr>) g1)))))
         }))"

section \<open>Commit\<close>

text \<open>
  Modelled from the spec: \<^verbatim>\<open>atomic.h\<close> is not part of the sources;
  \<open>atomic-cas-full(lock, expected, desired)\<close> stores \<open>desired\<close> and succeeds when the
  word holds \<open>expected\<close>, and otherwise fails and leaves the word alone.
\<close>

definition ATOMIC_CAS_FULL ::
    "(nat \<Rightarrow> stm_word) \<Rightarrow> nat \<Rightarrow> stm_word \<Rightarrow> stm_word \<Rightarrow> bool \<times> (nat \<Rightarrow> stm_word)" where
  "ATOMIC_CAS_FULL lk a e v = (if lk a = e then (True, lk(a := v)) else (False, lk))"

text \<open>
  One turn of the acquire loop of \<^verbatim>\<open>stm_commit\<close>, for the entry of index \<open>i\<close>: the
  lock is already ours (\<^verbatim>\<open>continue\<close>), or held by another transaction, or acquired by
  the compare-and-swap, which is tried again from \<^verbatim>\<open>restart\<close> when it fails.
\<close>

datatype acquire_step = Acq_skip | Acq_conflict | Acq_done stm_tx stm_global

partial_function (option) stm_commit_acquire_entry ::
    "stm_tx \<Rightarrow> stm_global \<Rightarrow> nat \<Rightarrow> acquire_step option" where
  "stm_commit_acquire_entry tx g i =
     (let w = w_entries (w_set tx) ! i;
          l = locks g (w_lock w)
      in if LOCK_GET_OWNED l \<noteq> 0 then
           (if in_w_set (w_set tx) (LOCK_GET_ADDR l) then Some Acq_skip
            else Some Acq_conflict)
         else
           (case ATOMIC_CAS_FULL (locks g) (w_lock w) l
                   (LOCK_SET_ADDR_WRITE (w_entry_ptr (w_set tx) i)) of
              (ok, lk) \<Rightarrow>
                if \<not> ok then stm_commit_acquire_entry tx g i
                else
                  (let w' = w\<lparr>w_no_drop := False, w_version := LOCK_GET_TIMESTAMP l\<rparr>
                   in Some (Acq_done
                        (tx\<lparr>w_set := (w_set tx)\<lparr>w_entries := (w_entries (w_set tx))[i := w'],
                                                  nb_acquired := nb_acquired (w_set tx) + 1\<rparr>\<rparr>)
                        (g\<lparr>locks := lk\<rparr>)))))"

text \<open>
  The acquire loop, from the entry of index \<open>i\<close> down to the first one. The Boolean tells
  whether every lock was taken; it is false where the code aborts with
  \<^verbatim>\<open>STM_ABORT_WW_CONFLICT\<close>.
\<close>

fun stm_commit_acquire ::
    "nat \<Rightarrow> stm_tx \<Rightarrow> stm_global \<Rightarrow> (bool \<times> stm_tx \<times> stm_global) option" where
  "stm_commit_acquire 0 tx g =
     do {
       s \<leftarrow> stm_commit_acquire_entry tx g 0;
       Some (case s of
               Acq_skip \<Rightarrow> (True, tx, g)
             | Acq_conflict \<Rightarrow> (False, tx, g)
             | Acq_done tx' g' \<Rightarrow> (True, tx', g'))
     }"
| "stm_commit_acquire (Suc i) tx g =
     do {
       s \<leftarrow> stm_commit_acquire_entry tx g (Suc i);
       (case s of
          Acq_skip \<Rightarrow> stm_commit_acquire i tx g
        | Acq_conflict \<Rightarrow> Some (False, tx, g)
        | Acq_done tx' g' \<Rightarrow> stm_commit_acquire i tx' g')
     }"

text \<open>Installing the new values and dropping the locks, first entry first.\<close>

fun stm_commit_publish :: "w_entry list \<Rightarrow> stm_word \<Rightarrow> stm_global \<Rightarrow> stm_global" where
  "stm_commit_publish [] t g = g"
| "stm_commit_publish (w # ws) t g =
     (let g1 = (if w_mask w = NOT 0 then g\<lparr>mem := (mem g)(w_addr w := w_value w)\<rparr>
                else if w_mask w \<noteq> 0 then
                  g\<lparr>mem := (mem g)(w_addr w :=
                       (mem g (w_addr w) AND NOT (w_mask w)) OR (w_value w AND w_mask w))\<rparr>
                else g);
          g2 = (if \<not> w_no_drop w
                then g1\<lparr>locks := (locks g1)(w_lock w := LOCK_SET_TIMESTAMP t)\<rparr>
                else g1)
      in stm_commit_publish ws t g2)"

text \<open>The label \<^verbatim>\<open>end\<close> of \<^verbatim>\<open>stm_commit\<close>.\<close>

definition stm_commit_end :: "stm_tx \<Rightarrow> stm_global \<Rightarrow> int result" where
  "stm_commit_end tx g =
     Returns 1 (tx\<lparr>tx_status := TX_COMMITTED\<rparr>) (run_callbacks On_commit (nb_commit_cb g) g)"

text \<open>
  The code of \<^verbatim>\<open>stm_commit\<close> that follows the acquire loop: commit timestamp,
  validation, publication.
\<close>

definition stm_commit_locked :: "stm_tx \<Rightarrow> stm_global \<Rightarrow> int result option" where
  "stm_commit_locked tx g =
     (let t = gclock g + 1;
          g1 = g\<lparr>gclock := gclock g + 1\<rparr>
      in case (if tx_start tx \<noteq> t - 1 then stm_validate tx g1 else Inr True) of
           Inl f \<Rightarrow> Some (Fault f)
         | Inr ok \<Rightarrow>
             if tx_start tx \<noteq> t - 1 \<and> \<not> ok then
               do {
                 r \<leftarrow> stm_rollback tx g1 STM_ABORT_VALIDATE;
                 Some (then_return r 0)
               }
             else Some (stm_commit_end tx (stm_commit_publish (w_entries (w_set tx)) t g1)))"

definition stm_commit :: "stm_tx \<Rightarrow> stm_global \<Rightarrow> int result option" where
  "stm_commit tx0 g0 =
     (let tx = tx0\<lparr>tx_nesting := tx_nesting tx0 - 1\<rparr> in
      if tx_nesting tx > 0 then Some (Returns 1 tx g0)
      else
        (let g = run_callbacks On_precommit (nb_precommit_cb g0) g0 in
         if \<not> IS_ACTIVE (tx_status tx) then Some (Fault Assertion_failure)
         else if length (w_entries (w_set tx)) = 0 then Some (stm_commit_end tx g)
         else
           do {
             a \<leftarrow> stm_commit_acquire (length (w_entries (w_set tx)) - 1) tx g;
             (case a of
                (ok, tx1, g1) \<Rightarrow>
                  if \<not> ok then
                    do {
                      r \<leftarrow> stm_rollback tx1 g1 STM_ABORT_WW_CONFLICT;
                      Some (then_return r 0)
                    }
                  else stm_commit_locked tx1 g1)
           }))"

section \<open>Extension control and thread initialisation\<close>

text \<open>
  \<^verbatim>\<open>can_extend\<close> is an unsigned bit-field of width one: assigning the \<^verbatim>\<open>int\<close>
  \<open>enable\<close> keeps its lowest bit. A null \<open>timestamp\<close> is \<open>None\<close>.
\<close>

definition stm_set_extension :: "stm_tx \<Rightarrow> int \<Rightarrow> stm_word option \<Rightarrow> stm_tx" where
  "stm_set_extension tx enable timestamp =
     (let tx1 = tx\<lparr>tx_can_extend := (enable mod 2 = 1)\<rparr> in
      case timestamp of
        None \<Rightarrow> tx1
      | Some ts \<Rightarrow> if ts < tx_end tx1 then tx1\<lparr>tx_end := ts\<rparr> else tx1)"

definition stm_get_tx :: "stm_global \<Rightarrow> nat option" where
  "stm_get_tx g = thread_tx g"

text \<open>Size of a descriptor in bytes; it depends on the platform's \<^verbatim>\<open>sigjmp_buf\<close>.\<close>

definition sizeof_stm_tx :: nat where
  "sizeof_stm_tx = 512"

definition stm_quiesce_enter_thread :: "nat \<Rightarrow> stm_global \<Rightarrow> stm_global" where
  "stm_quiesce_enter_thread p g = g\<lparr>threads := p # threads g, threads_nb := threads_nb g + 1\<rparr>"

text \<open>
  \<^verbatim>\<open>stm_init_thread\<close>. The macro \<^verbatim>\<open>TX_RETURN\<close> is \<^verbatim>\<open>return tx\<close> when the library is
  built with \<^verbatim>\<open>EXPLICIT_TX_PARAMETER\<close> and expands to nothing otherwise, which leaves
  \<^verbatim>\<open>if ((tx = stm_get_tx()) != NULL) ;\<close>, a test with an empty body. The first argument
  says which build it is; \<open>raw\<close> is what the memory handed out by \<^verbatim>\<open>malloc\<close> holds in
  the fields that the function does not set. The result is the descriptor's address where
  the function returns one.
\<close>

definition stm_init_thread ::
    "bool \<Rightarrow> stm_tx \<Rightarrow> stm_global \<Rightarrow> fault + nat option \<times> stm_global" where
  "stm_init_thread EXPLICIT_TX_PARAMETER raw g =
     (if stm_get_tx g \<noteq> None \<and> EXPLICIT_TX_PARAMETER then Inr (stm_get_tx g, g)
      else
        (case malloc g sizeof_stm_tx of
           None \<Rightarrow> Inl Exit_failure
         | Some (p, g1) \<Rightarrow>
             (let tx1 = raw\<lparr>tx_status := TX_IDLE,
                            r_set := \<lparr>r_entries = [], r_size = RW_SET_SIZE\<rparr>\<rparr>
              in case stm_allocate_rs_entries tx1 g1 False of
                   Inl f \<Rightarrow> Inl f
                 | Inr (tx2, g2) \<Rightarrow>
                     (let tx3 = tx2\<lparr>w_set := (w_set tx2)\<lparr>w_entries := [],
                                                          w_size := RW_SET_SIZE,
                                                          nb_acquired := 0\<rparr>\<rparr>
                      in case stm_allocate_ws_entries tx3 g2 False of
                           Inl f \<Rightarrow> Inl f
                         | Inr (tx4, g3) \<Rightarrow>
                             (let tx5 = tx4\<lparr>tx_nesting := 0\<rparr>;
                                  g4 = g3\<lparr>descriptors := (descriptors g3)(p \<mapsto> tx5),
                                          thread_tx := Some p\<rparr>;
                                  g5 = stm_quiesce_enter_thread p g4;
                                  g6 = run_callbacks On_init (nb_init_cb g5) g5
                              in Inr (if EXPLICIT_TX_PARAMETER then Some p else None, g6))))))"

section \<open>Notions used in the statements\<close>

text \<open>The write-set array lies inside the 64-bit address space.\<close>

definition w_set_in_memory :: "w_set_t \<Rightarrow> bool" where
  "w_set_in_memory ws \<longleftrightarrow>
     unat (w_base ws) + sizeof_w_entry * length (w_entries ws) \<le> 2 ^ 64"

text \<open>
  The test the specification gives for one read-set entry \<open>(lock, v_read)\<close>: an owned lock
  word whose pointer falls inside the transaction's own write-set array passes when the
  entry at that address has captured \<open>v_read\<close>; a lock owned by anyone else fails; an
  unowned lock passes when its version field is \<open>v_read\<close>.
\<close>

definition entry_passes :: "stm_tx \<Rightarrow> stm_global \<Rightarrow> r_entry \<Rightarrow> bool" where
  "entry_passes tx g r =
     (let w = locks g (r_lock r) in
      if LOCK_GET_OWNED w \<noteq> 0 then
        (if in_w_set (w_set tx) (LOCK_GET_ADDR w)
         then list_ex (\<lambda>k. w_entry_ptr (w_set tx) k = LOCK_GET_ADDR w \<and>
                           w_version (w_entries (w_set tx) ! k) = r_version r)
                [0 ..< length (w_entries (w_set tx))]
         else False)
      else LOCK_GET_TIMESTAMP w = r_version r)"

section \<open>Example states\<close>

text \<open>
  A process with clock 10, one registered thread, one callback on each hook and two
  versioned stripes: lock 5 at version 3 and lock 7 at version 2.
\<close>

definition ex_global :: stm_global where
  "ex_global =
     \<lparr>mem = (\<lambda>_. 0),
      locks = (\<lambda>_. 0)(5 := 6, 7 := 4),
      gclock = 10,
      quiesce = 0,
      threads_nb = 1,
      threads = [4096],
      thread_tx = Some 4096,
      descriptors = Map.empty,
      nb_init_cb = 1,
      nb_start_cb = 1,
      nb_precommit_cb = 1,
      nb_commit_cb = 1,
      nb_abort_cb = 1,
      cb_calls = [],
      heap_brk = 1048576,
      heap_limit = 16777216\<rparr>"

text \<open>An active update transaction that started at clock 10 and has done nothing yet.\<close>

definition ex_tx :: stm_tx where
  "ex_tx =
     \<lparr>tx_attr = \<lparr>read_only = False, no_retry = False\<rparr>,
      tx_status = TX_ACTIVE,
      tx_start = 10,
      tx_end = 10,
      r_set = \<lparr>r_entries = [], r_size = 4096\<rparr>,
      w_set = \<lparr>w_base = 65536, w_entries = [], w_size = 4096, nb_acquired = 0\<rparr>,
      tx_ro = False,
      tx_can_extend = True,
      tx_nesting = 1\<rparr>"

text \<open>
  The same transaction in the middle of a commit: it has read the stripes of locks 5 and 7
  and holds lock 5 through its only write-set entry, which captured version 3.
\<close>

definition ex_tx_committing :: stm_tx where
  "ex_tx_committing =
     ex_tx\<lparr>r_set := \<lparr>r_entries = [\<lparr>r_version = 3, r_lock = 5\<rparr>, \<lparr>r_version = 2, r_lock = 7\<rparr>],
                      r_size = 4096\<rparr>,
           w_set := \<lparr>w_base = 65536,
                     w_entries = [\<lparr>w_addr = 160, w_value = 1, w_mask = NOT 0, w_version = 3,
                                   w_lock = 5, w_no_drop = False\<rparr>],
                     w_size = 4096, nb_acquired = 1\<rparr>\<rparr>"

definition ex_global_committing :: stm_global where
  "ex_global_committing = ex_global\<lparr>locks := (locks ex_global)(5 := 65537)\<rparr>"

text \<open>The state an outcome leaves behind, and whether the outcome is an abort.\<close>

fun result_global :: "'a result \<Rightarrow> stm_global option" where
  "result_global (Returns _ tx g) = Some g"
| "result_global (Longjmp _ tx g) = Some g"
| "result_global (Fault _) = None"

fun result_tx :: "'a result \<Rightarrow> stm_tx option" where
  "result_tx (Returns _ tx g) = Some tx"
| "result_tx (Longjmp _ tx g) = Some tx"
| "result_tx (Fault _) = None"

fun is_abort :: "'a result \<Rightarrow> bool" where
  "is_abort (Returns _ tx g) = (tx_status tx = TX_ABORTED)"
| "is_abort (Longjmp _ tx g) = True"
| "is_abort (Fault _) = False"

text \<open>Application memory is the same after the outcome \<open>r\<close> as in \<open>g\<close>.\<close>

definition mem_kept :: "stm_global \<Rightarrow> 'a result \<Rightarrow> bool" where
  "mem_kept g r = (case result_global r of None \<Rightarrow> True | Some g' \<Rightarrow> mem g' = mem g)"

text \<open>
  What \<^verbatim>\<open>stm_rollback\<close> leaves in the descriptor when it returns to its caller, and
  what it leaves when it has prepared the retry.
\<close>

definition aborted_tx :: "stm_tx \<Rightarrow> stm_tx" where
  "aborted_tx tx = tx\<lparr>tx_status := TX_ABORTED, tx_nesting := 0\<rparr>"

definition restarted_tx :: "stm_tx \<Rightarrow> stm_global \<Rightarrow> stm_tx" where
  "restarted_tx tx g =
     tx\<lparr>tx_status := TX_ACTIVE, tx_nesting := 1,
        tx_start := gclock g, tx_end := gclock g, tx_can_extend := True,
        w_set := (w_set tx)\<lparr>nb_acquired := 0, w_entries := []\<rparr>,
        r_set := (r_set tx)\<lparr>r_entries := []\<rparr>\<rparr>"

text \<open>The descriptor as \<^verbatim>\<open>stm_prepare\<close> leaves it, read against the final process state.\<close>

definition prepared :: "stm_tx \<Rightarrow> stm_global \<Rightarrow> stm_tx" where
  "prepared tx g =
     tx\<lparr>tx_start := gclock g, tx_end := gclock g, tx_can_extend := True,
        w_set := (w_set tx)\<lparr>nb_acquired := 0, w_entries := []\<rparr>,
        r_set := (r_set tx)\<lparr>r_entries := []\<rparr>,
        tx_status := TX_ACTIVE\<rparr>"

text \<open>The write-set entry that \<^verbatim>\<open>stm_write\<close> appends for a first store to an address.\<close>

definition new_w_entry :: "stm_global \<Rightarrow> stm_word \<Rightarrow> stm_word \<Rightarrow> stm_word \<Rightarrow> w_entry" where
  "new_w_entry g addr val msk =
     \<lparr>w_addr = addr,
      w_value = (if msk = 0 then 0 else val),
      w_mask = msk,
      w_version = LOCK_GET_TIMESTAMP (locks g (GET_LOCK addr)),
      w_lock = GET_LOCK addr,
      w_no_drop = True\<rparr>"

definition append_w_entry :: "stm_tx \<Rightarrow> w_entry \<Rightarrow> stm_tx" where
  "append_w_entry tx w = tx\<lparr>w_set := (w_set tx)\<lparr>w_entries := w_entries (w_set tx) @ [w]\<rparr>\<rparr>"

text \<open>
  A transaction whose snapshot ends at clock 1 and that has read the stripe of lock 7 at
  version 1; in \<open>ex_global\<close> that stripe is at version 2, so its read set is stale. The
  second one has also read the stripe of lock 5, at version 1.
\<close>

definition ex_tx_stale :: stm_tx where
  "ex_tx_stale =
     ex_tx\<lparr>tx_start := 1, tx_end := 1,
           r_set := \<lparr>r_entries = [\<lparr>r_version = 1, r_lock = 7\<rparr>], r_size = 4096\<rparr>\<rparr>"

definition ex_tx_stale2 :: stm_tx where
  "ex_tx_stale2 =
     ex_tx\<lparr>tx_start := 1, tx_end := 1,
           r_set := \<lparr>r_entries = [\<lparr>r_version = 1, r_lock = 7\<rparr>, \<lparr>r_version = 1, r_lock = 5\<rparr>],
                     r_size = 4096\<rparr>\<rparr>"

text \<open>The invariant of the snapshot: no read-set entry records a version above \<open>tx.end\<close>.\<close>

definition read_set_within_snapshot :: "stm_tx \<Rightarrow> bool" where
  "read_set_within_snapshot tx = list_all (\<lambda>r. r_version r \<le> tx_end tx) (r_entries (r_set tx))"

text \<open>
  Releasing one acquired lock at rollback: the version captured at acquisition is stored
  back. \<open>restore_locks\<close> does it for the acquired entries of a list, in list order.
\<close>

definition restore_lock :: "w_entry \<Rightarrow> (nat \<Rightarrow> stm_word) \<Rightarrow> (nat \<Rightarrow> stm_word)" where
  "restore_lock w lk = lk(w_lock w := LOCK_SET_TIMESTAMP (w_version w))"

definition restore_locks :: "w_entry list \<Rightarrow> (nat \<Rightarrow> stm_word) \<Rightarrow> (nat \<Rightarrow> stm_word)" where
  "restore_locks ws lk = fold restore_lock (filter (\<lambda>w. \<not> w_no_drop w) ws) lk"

text \<open>
  The state of the acquire loop of \<^verbatim>\<open>stm_commit\<close> with the entries of index below \<open>n\<close>
  still to be visited, \<open>L0\<close> being the lock table before the loop: those entries are
  untouched, \<^verbatim>\<open>nb_acquired\<close> counts the acquired entries, every acquired entry holds a
  lock that was free in \<open>L0\<close> and has captured the version it had there, and releasing
  the acquired entries from the last one downwards gives \<open>L0\<close> back.
\<close>

definition acquire_inv :: "(nat \<Rightarrow> stm_word) \<Rightarrow> stm_tx \<Rightarrow> stm_global \<Rightarrow> nat \<Rightarrow> bool" where
  "acquire_inv L0 tx g n \<longleftrightarrow>
     list_all w_no_drop (take n (w_entries (w_set tx))) \<and>
     nb_acquired (w_set tx) = int (length (filter (\<lambda>w. \<not> w_no_drop w) (w_entries (w_set tx)))) \<and>
     restore_locks (rev (w_entries (w_set tx))) (locks g) = L0 \<and>
     list_all (\<lambda>w. w_no_drop w \<or>
                  (LOCK_GET_OWNED (locks g (w_lock w)) \<noteq> 0 \<and>
                   LOCK_GET_OWNED (L0 (w_lock w)) = 0 \<and>
                   w_version w = LOCK_GET_TIMESTAMP (L0 (w_lock w))))
       (w_entries (w_set tx))"

text \<open>What the acquire loop leaves alone: everything but the write set and the lock table.\<close>

definition acquire_frame :: "stm_tx \<Rightarrow> stm_global \<Rightarrow> stm_tx \<Rightarrow> stm_global \<Rightarrow> bool" where
  "acquire_frame tx g tx' g' \<longleftrightarrow>
     tx' = tx\<lparr>w_set := w_set tx'\<rparr> \<and> g' = g\<lparr>locks := locks g'\<rparr> \<and>
     length (w_entries (w_set tx')) = length (w_entries (w_set tx)) \<and>
     w_base (w_set tx') = w_base (w_set tx) \<and> w_size (w_set tx') = w_size (w_set tx)"

section \<open>The operations an application calls, and transactions as sequences of them\<close>

definition stm_load :: "stm_tx \<Rightarrow> stm_global \<Rightarrow> stm_word \<Rightarrow> stm_word result option" where
  "stm_load tx g addr = stm_read_invisible tx g addr"

definition stm_store ::
    "stm_tx \<Rightarrow> stm_global \<Rightarrow> stm_word \<Rightarrow> stm_word \<Rightarrow> nat option result option" where
  "stm_store tx g addr val = stm_write tx g addr val (NOT 0)"

definition stm_store2 ::
    "stm_tx \<Rightarrow> stm_global \<Rightarrow> stm_word \<Rightarrow> stm_word \<Rightarrow> stm_word \<Rightarrow> nat option result option" where
  "stm_store2 tx g addr val msk = stm_write tx g addr val msk"

definition stm_abort :: "stm_tx \<Rightarrow> stm_global \<Rightarrow> nat \<Rightarrow> unit result option" where
  "stm_abort tx g reason = stm_rollback tx g (STM_ABORT_EXPLICIT_OR reason)"

datatype tx_op =
  Op_load stm_word
  | Op_store stm_word stm_word
  | Op_store2 stm_word stm_word stm_word
  | Op_commit
  | Op_abort nat

fun forget :: "'a result \<Rightarrow> unit result" where
  "forget (Returns _ tx g) = Returns () tx g"
| "forget (Longjmp r tx g) = Longjmp r tx g"
| "forget (Fault f) = Fault f"

fun tx_step :: "tx_op \<Rightarrow> stm_tx \<Rightarrow> stm_global \<Rightarrow> unit result option" where
  "tx_step (Op_load addr) tx g = map_option forget (stm_load tx g addr)"
| "tx_step (Op_store addr val) tx g = map_option forget (stm_store tx g addr val)"
| "tx_step (Op_store2 addr val msk) tx g = map_option forget (stm_store2 tx g addr val msk)"
| "tx_step Op_commit tx g = map_option forget (stm_commit tx g)"
| "tx_step (Op_abort reason) tx g = stm_abort tx g reason"

text \<open>
  The body of a transaction, run from the state that follows its start: the operations
  are executed in order until one of them does not return, jumps back to the start
  (the transaction has aborted and is ready for its retry), stops the process, or leaves
  the descriptor aborted or committed.
\<close>

fun run_tx :: "tx_op list \<Rightarrow> stm_tx \<Rightarrow> stm_global \<Rightarrow> unit result option" where
  "run_tx [] tx g = Some (Returns () tx g)"
| "run_tx (op # ops) tx g =
     do {
       r \<leftarrow> tx_step op tx g;
       (case r of
          Returns _ tx' g' \<Rightarrow>
            if tx_status tx' = TX_ABORTED \<or> tx_status tx' = TX_COMMITTED then Some r
            else run_tx ops tx' g'
        | Longjmp reason tx' g' \<Rightarrow> Some r
        | Fault f \<Rightarrow> Some r)
     }"

section \<open>More example states\<close>

text \<open>
  The stale transaction after its store to address 160.
\<close>

definition ex_tx_stale_w :: stm_tx where
  "ex_tx_stale_w = append_w_entry ex_tx_stale (new_w_entry ex_global 160 1 (NOT 0))"

text \<open>
  The stale transaction and the process once the acquire loop of its commit has taken
  lock 5 (the pre-commit callback has run).
\<close>

definition ex_tx_stale_acq :: stm_tx where
  "ex_tx_stale_acq =
     ex_tx_stale_w\<lparr>tx_nesting := 0,
       w_set := (w_set ex_tx_stale_w)\<lparr>w_entries :=
         [\<lparr>w_addr = 160, w_value = 1, w_mask = NOT 0, w_version = 3, w_lock = 5,
           w_no_drop = False\<rparr>],
         nb_acquired := 1\<rparr>\<rparr>"

definition ex_global_acq :: stm_global where
  "ex_global_acq =
     (run_callbacks On_precommit (nb_precommit_cb ex_global) ex_global)
       \<lparr>locks := (locks ex_global)(5 := 65537)\<rparr>"

text \<open>The state in which the commit of the stale transaction ends: ready for its retry.\<close>

definition ex_tx_retry :: stm_tx where
  "ex_tx_retry =
     restarted_tx (ex_tx_stale_acq\<lparr>w_set := (w_set ex_tx_stale_acq)\<lparr>nb_acquired := 0\<rparr>\<rparr>)
       (ex_global_acq\<lparr>gclock := gclock ex_global + 1\<rparr>)"

definition ex_global_retry :: stm_global where
  "ex_global_retry =
     run_callbacks On_abort (nb_abort_cb ex_global)
       (ex_global_acq\<lparr>gclock := gclock ex_global + 1, locks := locks ex_global\<rparr>)"

text \<open>
  A transaction whose snapshot ends at clock 2 and that has read the stripe of lock 7 at
  its current version 2; after a load of address 160 (lock 5, version 3) its snapshot has
  been extended to the clock.
\<close>

definition ex_tx_old :: stm_tx where
  "ex_tx_old =
     ex_tx\<lparr>tx_start := 2, tx_end := 2,
           r_set := \<lparr>r_entries = [\<lparr>r_version = 2, r_lock = 7\<rparr>], r_size = 4096\<rparr>\<rparr>"

definition ex_tx_old_loaded :: stm_tx where
  "ex_tx_old_loaded =
     ex_tx_old\<lparr>tx_end := 10,
       r_set := \<lparr>r_entries = [\<lparr>r_version = 2, r_lock = 7\<rparr>, \<lparr>r_version = 3, r_lock = 5\<rparr>],
                 r_size = 4096\<rparr>\<rparr>"









section \<open>Evaluation helpers\<close>

lemmas lock_word_defs =
  LOCK_GET_OWNED_def LOCK_GET_WRITE_def OWNED_MASK_def WRITE_MASK_def LOCK_GET_ADDR_def
  LOCK_SET_ADDR_WRITE_def LOCK_GET_TIMESTAMP_def LOCK_SET_TIMESTAMP_def OWNED_BITS_def
  LOCK_BITS_def GET_LOCK_def LOCK_IDX_def LOCK_SHIFT_def LOCK_MASK_def LOCK_ARRAY_SIZE_def
  LOCK_ARRAY_LOG_SIZE_def VERSION_MAX_def MAX_THREADS_def LOCK_UNIT_def

lemmas ex_defs =
  ex_global_def ex_tx_def ex_tx_stale_def ex_tx_stale2_def ex_tx_committing_def
  ex_global_committing_def

section \<open>Waiting loops, preparation and rollback\<close>

lemma stm_write_wait_unowned:
  "LOCK_GET_OWNED (locks g lock) = 0 \<Longrightarrow> stm_write_wait g lock = Some (locks g lock)"
  by (subst stm_write_wait.simps) simp

lemma stm_write_wait_Some:
  assumes "stm_write_wait g lock = Some l"
  shows "LOCK_GET_OWNED (locks g lock) = 0 \<and> l = locks g lock"
  by (rule stm_write_wait.raw_induct
        [where P = "\<lambda>g lock l. LOCK_GET_OWNED (locks g lock) = 0 \<and> l = locks g lock", OF _ assms])
     (auto simp: Let_def split: if_splits)

lemma stm_write_wait_owned:
  "LOCK_GET_OWNED (locks g lock) \<noteq> 0 \<Longrightarrow> stm_write_wait g lock = None"
  using stm_write_wait_Some[of g lock] by (cases "stm_write_wait g lock") auto

lemma stm_check_quiesce_wait_free:
  "quiesce g \<noteq> 2 \<Longrightarrow> stm_check_quiesce_wait g = Some ()"
  by (subst stm_check_quiesce_wait.simps) simp

lemma stm_prepare_plain:
  assumes "gclock g < VERSION_MAX" "quiesce g \<noteq> 2"
  shows "stm_prepare tx g =
    Some (Inr (tx\<lparr>tx_start := gclock g, tx_end := gclock g, tx_can_extend := True,
                 w_set := (w_set tx)\<lparr>nb_acquired := 0, w_entries := []\<rparr>,
                 r_set := (r_set tx)\<lparr>r_entries := []\<rparr>,
                 tx_status := TX_ACTIVE\<rparr>, g))"
  using assms
  by (subst stm_prepare.simps)
     (simp add: Let_def stm_check_quiesce_def IS_ACTIVE_def not_le[symmetric] del: not_le)

lemma mem_run_callbacks [simp]: "mem (run_callbacks h n g) = mem g"
  and locks_run_callbacks [simp]: "locks (run_callbacks h n g) = locks g"
  and gclock_run_callbacks [simp]: "gclock (run_callbacks h n g) = gclock g"
  and quiesce_run_callbacks [simp]: "quiesce (run_callbacks h n g) = quiesce g"
  by (simp_all add: run_callbacks_def)

lemma stm_rollback_plain:
  assumes "IS_ACTIVE (tx_status tx)" "nb_acquired (w_set tx) \<le> 0"
    and "gclock g < VERSION_MAX" "quiesce g \<noteq> 2"
  shows "stm_rollback tx g reason =
    Some (if no_retry (tx_attr tx) \<or> has_STM_ABORT_EXPLICIT reason
          then Returns () (aborted_tx tx) (run_callbacks On_abort (nb_abort_cb g) g)
          else Longjmp reason (restarted_tx tx g) (run_callbacks On_abort (nb_abort_cb g) g))"
  using assms
  by (simp add: stm_rollback_def stm_rollback_locks_def Let_def stm_prepare_plain
      aborted_tx_def restarted_tx_def)

text \<open>Memory is never touched by the barrier, the preparation or the rollback.\<close>

lemma stm_quiesce_barrier_loop_mem:
  assumes "stm_quiesce_barrier_loop (Some rollover_clock) g = Some g'"
  shows "mem g' = mem g"
  by (rule stm_quiesce_barrier_loop.raw_induct
        [where P = "\<lambda>f g g'. f = Some rollover_clock \<longrightarrow> mem g' = mem g",
         OF _ assms, rule_format])
     (auto simp: rollover_clock_def split: if_splits)

lemma stm_quiesce_barrier_mem:
  assumes "stm_quiesce_barrier tx (Some rollover_clock) g = Some (Inr g')"
  shows "mem g' = mem g"
proof -
  from assms obtain g3 where
    "stm_quiesce_barrier_loop (Some rollover_clock)
       (if quiesce (g\<lparr>threads_nb := threads_nb g - 1\<rparr>) = 0
        then g\<lparr>threads_nb := threads_nb g - 1, quiesce := 1\<rparr>
        else g\<lparr>threads_nb := threads_nb g - 1\<rparr>) = Some g3"
    and g': "g' = g3\<lparr>threads_nb := threads_nb g3 + 1\<rparr>"
    by (auto simp: stm_quiesce_barrier_def Let_def split: if_splits bind_splits)
  from stm_quiesce_barrier_loop_mem[OF this(1)] have "mem g3 = mem g"
    by (auto split: if_splits)
  thus ?thesis using g' by simp
qed

lemma stm_prepare_mem:
  assumes "stm_prepare tx g = Some (Inr (tx', g'))"
  shows "mem g' = mem g"
  by (rule stm_prepare.raw_induct
        [where P = "\<lambda>tx g r. \<forall>tx' g'. r = Inr (tx', g') \<longrightarrow> mem g' = mem g",
         OF _ assms, rule_format])
     (auto simp: Let_def split: if_splits bind_splits sum.splits dest: stm_quiesce_barrier_mem)

lemma stm_rollback_mem:
  assumes "stm_rollback tx g reason = Some r"
  shows "mem_kept g r"
  using assms
  by (auto simp: stm_rollback_def stm_rollback_locks_def mem_kept_def Let_def
      split: if_splits sum.splits prod.splits bind_splits dest: stm_prepare_mem)

lemma stm_rollback_reason:
  assumes "stm_rollback tx g reason = Some (Longjmp reason' tx' g')"
  shows "reason' = reason"
  using assms
  by (auto simp: stm_rollback_def Let_def split: if_splits sum.splits prod.splits bind_splits)

lemma stm_quiesce_barrier_mem':
  "stm_quiesce_barrier tx (Some rollover_clock) g = Some b \<Longrightarrow>
     b = Inl Assertion_failure \<or> (\<exists>g'. b = Inr g' \<and> mem g' = mem g)"
  by (cases b) (auto simp: stm_quiesce_barrier_def Let_def
                 split: if_splits bind_splits dest!: stm_quiesce_barrier_loop_mem)

lemma stm_check_quiesce_result:
  "stm_check_quiesce tx g = Some q \<Longrightarrow> IS_ACTIVE (tx_status tx) \<Longrightarrow> \<exists>n. q = Inr (n, tx)"
  by (auto simp: stm_check_quiesce_def Let_def split: if_splits bind_splits)

lemma stm_prepare_result:
  assumes "stm_prepare tx g = Some r" "\<not> IS_ACTIVE (tx_status tx)"
  shows "\<exists>g'. r = Inr (prepared tx g', g') \<and> mem g' = mem g"
proof (rule stm_prepare.raw_induct
        [where P = "\<lambda>tx g r. \<not> IS_ACTIVE (tx_status tx) \<longrightarrow>
           (\<exists>g'. r = Inr (prepared tx g', g') \<and> mem g' = mem g)",
         OF _ assms(1), rule_format, OF _ assms(2)], goal_cases)
  case (1 prep tx g r)
  let ?tx1 = "tx\<lparr>tx_start := gclock g, tx_end := gclock g, tx_can_extend := True\<rparr>"
  show ?case
  proof (cases "VERSION_MAX \<le> gclock g")
    case True
    with 1(2) obtain b where b: "stm_quiesce_barrier (Some ?tx1) (Some rollover_clock) g = Some b"
      and r: "(case b of Inl f \<Rightarrow> Some (Inl f) | Inr g' \<Rightarrow> prep ?tx1 g') = Some r"
      by (auto simp: Let_def split: bind_splits)
    from b 1(3) obtain g1 where g1: "b = Inr g1" "mem g1 = mem g"
      by (auto simp: stm_quiesce_barrier_def Let_def split: if_splits bind_splits
          dest!: stm_quiesce_barrier_loop_mem)
    with r have "prep ?tx1 g1 = Some r" by simp
    from 1(1)[OF this] 1(3) obtain g' where "r = Inr (prepared ?tx1 g', g')" "mem g' = mem g1"
      by auto
    with g1 show ?thesis by (auto simp: prepared_def)
  next
    case False
    let ?tx2 = "?tx1\<lparr>w_set := (w_set ?tx1)\<lparr>nb_acquired := 0, w_entries := []\<rparr>,
                       r_set := (r_set ?tx1)\<lparr>r_entries := []\<rparr>,
                       tx_status := TX_ACTIVE\<rparr>"
    from False 1(2) obtain q where q: "stm_check_quiesce ?tx2 g = Some q"
      and r: "(case q of Inl f \<Rightarrow> Some (Inl f) | Inr (_, tx3) \<Rightarrow> Some (Inr (tx3, g))) = Some r"
      by (auto simp: Let_def split: bind_splits)
    from stm_check_quiesce_result[OF q] obtain n where "q = Inr (n, ?tx2)"
      by (auto simp: IS_ACTIVE_def)
    with r show ?thesis by (auto simp: prepared_def)
  qed
qed

lemma stm_rollback_result:
  assumes "stm_rollback tx g reason = Some r" "IS_ACTIVE (tx_status tx)"
    and "nb_acquired (w_set tx) \<le> 0"
  shows "\<exists>g'. mem g' = mem g \<and>
           (r = Returns () (aborted_tx tx) g' \<or> r = Longjmp reason (restarted_tx tx g') g')"
proof (cases "no_retry (tx_attr tx) \<or> has_STM_ABORT_EXPLICIT reason")
  case True
  with assms show ?thesis
    by (auto simp: stm_rollback_def stm_rollback_locks_def Let_def aborted_tx_def)
next
  case False
  let ?tx2 = "tx\<lparr>tx_status := TX_ABORTED, tx_nesting := 1\<rparr>"
  let ?g2 = "run_callbacks On_abort (nb_abort_cb g) g"
  from assms False obtain p where p: "stm_prepare ?tx2 ?g2 = Some p"
    and r: "r = (case p of Inl f \<Rightarrow> Fault f | Inr (tx3, g3) \<Rightarrow> Longjmp reason tx3 g3)"
    by (auto simp: stm_rollback_def stm_rollback_locks_def Let_def
        split: bind_splits sum.splits)
  from stm_prepare_result[OF p] obtain g' where
    "p = Inr (prepared ?tx2 g', g')" "mem g' = mem ?g2"
    by (auto simp: IS_ACTIVE_def)
  with r show ?thesis by (auto simp: restarted_tx_def prepared_def)
qed

section \<open>Validation (claim C3)\<close>

lemma unat_w_entry_ptr:
  assumes "w_set_in_memory ws" "k < length (w_entries ws)"
  shows "unat (w_entry_ptr ws k) = unat (w_base ws) + sizeof_w_entry * k"
proof -
  have lt: "sizeof_w_entry * k < sizeof_w_entry * length (w_entries ws)"
    using assms(2) by (simp add: sizeof_w_entry_def)
  have b: "unat (w_base ws) + sizeof_w_entry * k < 2 ^ 64"
    using assms(1) lt unfolding w_set_in_memory_def by linarith
  hence k64: "sizeof_w_entry * k < 2 ^ 64" by linarith
  have "unat (of_nat (sizeof_w_entry * k) :: stm_word) = sizeof_w_entry * k"
    using k64 by (intro of_nat_inverse) simp_all
  thus ?thesis
    unfolding w_entry_ptr_def using b
    by (simp add: unat_add_lem [THEN iffD1])
qed

lemma w_deref_iff:
  assumes "w_set_in_memory ws" "in_w_set ws p"
  shows "w_deref ws p = Inr e \<longleftrightarrow>
         (\<exists>k < length (w_entries ws). w_entry_ptr ws k = p \<and> e = w_entries ws ! k)"
proof
  assume d: "w_deref ws p = Inr e"
  let ?off = "unat p - unat (w_base ws)"
  from d have m: "?off mod sizeof_w_entry = 0" and l: "?off div sizeof_w_entry < length (w_entries ws)"
    and e: "e = w_entries ws ! (?off div sizeof_w_entry)"
    by (auto simp: w_deref_def Let_def split: if_splits)
  have "unat (w_entry_ptr ws (?off div sizeof_w_entry)) = unat (w_base ws) + sizeof_w_entry * (?off div sizeof_w_entry)"
    using unat_w_entry_ptr[OF assms(1) l] .
  also have "\<dots> = unat (w_base ws) + ?off" using m by (metis add_cancel_right_right mult_div_mod_eq)
  also have "\<dots> = unat p" using assms(2) by (simp add: in_w_set_def)
  finally have "w_entry_ptr ws (?off div sizeof_w_entry) = p" by (simp add: word_unat_eq_iff)
  with l e show "\<exists>k < length (w_entries ws). w_entry_ptr ws k = p \<and> e = w_entries ws ! k" by blast
next
  assume "\<exists>k < length (w_entries ws). w_entry_ptr ws k = p \<and> e = w_entries ws ! k"
  then obtain k where k: "k < length (w_entries ws)" "w_entry_ptr ws k = p" "e = w_entries ws ! k" by blast
  have "unat p = unat (w_base ws) + sizeof_w_entry * k"
    using unat_w_entry_ptr[OF assms(1) k(1)] k(2) by simp
  hence "unat p - unat (w_base ws) = sizeof_w_entry * k" by simp
  thus "w_deref ws p = Inr e" using k by (simp add: w_deref_def sizeof_w_entry_def)
qed

lemma stm_validate_loop_iff:
  assumes "w_set_in_memory (w_set tx)"
  shows "stm_validate_loop (w_set tx) (locks g) rs = Inr True \<longleftrightarrow> list_all (entry_passes tx g) rs"
proof (induction rs)
  case Nil
  show ?case by simp
next
  case (Cons r rs)
  show ?case
  proof (cases "LOCK_GET_OWNED (locks g (r_lock r)) \<noteq> 0")
    case False
    then show ?thesis using Cons.IH by (simp add: entry_passes_def Let_def)
  next
    case own: True
    show ?thesis
    proof (cases "in_w_set (w_set tx) (LOCK_GET_ADDR (locks g (r_lock r)))")
      case False
      then show ?thesis using own by (simp add: entry_passes_def Let_def)
    next
      case inw: True
      have ex: "list_ex (\<lambda>k. w_entry_ptr (w_set tx) k = LOCK_GET_ADDR (locks g (r_lock r)) \<and>
                           w_version (w_entries (w_set tx) ! k) = r_version r)
                [0 ..< length (w_entries (w_set tx))]
            \<longleftrightarrow> (\<exists>e. w_deref (w_set tx) (LOCK_GET_ADDR (locks g (r_lock r))) = Inr e \<and> w_version e = r_version r)"
        unfolding w_deref_iff[OF assms inw] list_ex_iff by (simp add: Bex_def) blast
      show ?thesis
        using own inw Cons.IH
        by (cases "w_deref (w_set tx) (LOCK_GET_ADDR (locks g (r_lock r)))")
           (auto simp: entry_passes_def Let_def ex)
    qed
  qed
qed

text \<open>
  Claim C3. \<^verbatim>\<open>stm_validate\<close> succeeds if and only if every read-set entry
  \<open>(lock, v_read)\<close> passes: an owned lock word whose pointer falls inside the transaction's
  own write-set array passes exactly when the write-set entry at that address has captured
  version \<open>v_read\<close>; a lock owned by anyone else fails; an unowned lock passes exactly
  when its version field equals \<open>v_read\<close>.
\<close>

theorem stm_validate_iff:
  assumes "w_set_in_memory (w_set tx)"
  shows "stm_validate tx g = Inr True \<longleftrightarrow>
         list_all (entry_passes tx g) (r_entries (r_set tx))"
  unfolding stm_validate_def by (rule stm_validate_loop_iff[OF assms])

lemma ex_committing_in_memory: "w_set_in_memory (w_set ex_tx_committing)"
  by (simp add: w_set_in_memory_def ex_tx_committing_def ex_tx_def sizeof_w_entry_def)

lemma ex_committing_validates:
  "stm_validate ex_tx_committing ex_global_committing = Inr True"
  by (simp add: stm_validate_def ex_tx_committing_def ex_tx_def ex_global_committing_def
      ex_global_def LOCK_GET_OWNED_def OWNED_MASK_def LOCK_GET_ADDR_def in_w_set_def
      w_deref_def sizeof_w_entry_def LOCK_GET_TIMESTAMP_def OWNED_BITS_def)

theorem stm_validate_iff_witness:
  "w_set_in_memory (w_set ex_tx_committing) \<and>
   stm_validate ex_tx_committing ex_global_committing = Inr True \<and>
   list_all (entry_passes ex_tx_committing ex_global_committing)
     (r_entries (r_set ex_tx_committing))"
  using stm_validate_iff[OF ex_committing_in_memory, of ex_global_committing]
        ex_committing_in_memory ex_committing_validates
  by simp

section \<open>Commit of a transaction without writes (claim C5)\<close>

text \<open>
  Claim C5. A top-level commit of a transaction whose write set is empty sets the status
  to \<open>COMMITTED\<close> and returns success; the global clock, every word of shared memory and
  every lock word are left as they were (only the pre-commit and commit callbacks run).
\<close>

theorem stm_commit_empty_write_set:
  assumes "tx_nesting tx = 1" "w_entries (w_set tx) = []" "IS_ACTIVE (tx_status tx)"
  shows "\<exists>g'. stm_commit tx g =
           Some (Returns 1 (tx\<lparr>tx_nesting := 0, tx_status := TX_COMMITTED\<rparr>) g') \<and>
         gclock g' = gclock g \<and> mem g' = mem g \<and> locks g' = locks g \<and>
         cb_calls g' = rev (map (Pair On_commit) [0 ..< nb_commit_cb g])
                       @ rev (map (Pair On_precommit) [0 ..< nb_precommit_cb g])
                       @ cb_calls g"
  using assms
  by (simp add: stm_commit_def stm_commit_end_def Let_def run_callbacks_def)

lemma ex_tx_active: "IS_ACTIVE (tx_status ex_tx)"
  by (simp add: ex_tx_def IS_ACTIVE_def)

theorem stm_commit_empty_write_set_witness:
  "tx_nesting ex_tx = 1 \<and> w_entries (w_set ex_tx) = [] \<and> IS_ACTIVE (tx_status ex_tx) \<and>
   (\<exists>g'. stm_commit ex_tx ex_global =
           Some (Returns 1 (ex_tx\<lparr>tx_nesting := 0, tx_status := TX_COMMITTED\<rparr>) g') \<and>
         gclock g' = 10 \<and> mem g' = mem ex_global \<and> locks g' = locks ex_global \<and>
         cb_calls g' = [(On_commit, 0), (On_precommit, 0)])"
proof -
  have n: "tx_nesting ex_tx = 1" and w: "w_entries (w_set ex_tx) = []"
    by (simp_all add: ex_tx_def)
  from stm_commit_empty_write_set[OF n w ex_tx_active, of ex_global] n w ex_tx_active
  show ?thesis by (simp add: ex_global_def)
qed

section \<open>Stores (claims C8 and C1)\<close>

text \<open>
  Claim C8. A store issued inside a transaction whose read-only flag is set never buffers
  a write and never modifies shared memory: whatever the outcome, it is the abort with
  reason \<open>RO_WRITE\<close> (a return of \<^verbatim>\<open>NULL\<close> with the unchanged write set under
  \<open>no_retry\<close>, otherwise the jump back with emptied sets), and below \<open>VERSION_MAX\<close>
  with no quiescence request pending the store does end that way.
\<close>

theorem stm_write_read_only:
  assumes "tx_ro tx" "IS_ACTIVE (tx_status tx)" "nb_acquired (w_set tx) = 0"
  shows "(\<forall>r. stm_write tx g addr val msk = Some r \<longrightarrow>
            (\<exists>g'. mem g' = mem g \<and>
               (r = Returns None (aborted_tx (tx\<lparr>tx_attr := (tx_attr tx)\<lparr>read_only := False\<rparr>\<rparr>)) g'
                \<or> r = Longjmp STM_ABORT_RO_WRITE
                       (restarted_tx (tx\<lparr>tx_attr := (tx_attr tx)\<lparr>read_only := False\<rparr>\<rparr>) g') g')))
       \<and> (gclock g < VERSION_MAX \<and> quiesce g \<noteq> 2 \<longrightarrow>
            stm_write tx g addr val msk =
              Some (if no_retry (tx_attr tx)
                    then Returns None
                           (aborted_tx (tx\<lparr>tx_attr := (tx_attr tx)\<lparr>read_only := False\<rparr>\<rparr>))
                           (run_callbacks On_abort (nb_abort_cb g) g)
                    else Longjmp STM_ABORT_RO_WRITE
                           (restarted_tx (tx\<lparr>tx_attr := (tx_attr tx)\<lparr>read_only := False\<rparr>\<rparr>) g)
                           (run_callbacks On_abort (nb_abort_cb g) g)))"
proof (intro conjI allI impI)
  fix r assume "stm_write tx g addr val msk = Some r"
  with assms obtain r0 where
    r0: "stm_rollback (tx\<lparr>tx_attr := (tx_attr tx)\<lparr>read_only := False\<rparr>\<rparr>) g STM_ABORT_RO_WRITE = Some r0"
    and r: "r = then_return r0 None"
    by (auto simp: stm_write_def split: bind_splits)
  from stm_rollback_result[OF r0] assms obtain g' where
    "mem g' = mem g"
    "r0 = Returns () (aborted_tx (tx\<lparr>tx_attr := (tx_attr tx)\<lparr>read_only := False\<rparr>\<rparr>)) g' \<or>
     r0 = Longjmp STM_ABORT_RO_WRITE
            (restarted_tx (tx\<lparr>tx_attr := (tx_attr tx)\<lparr>read_only := False\<rparr>\<rparr>) g') g'"
    by auto
  with r show "\<exists>g'. mem g' = mem g \<and>
               (r = Returns None (aborted_tx (tx\<lparr>tx_attr := (tx_attr tx)\<lparr>read_only := False\<rparr>\<rparr>)) g'
                \<or> r = Longjmp STM_ABORT_RO_WRITE
                       (restarted_tx (tx\<lparr>tx_attr := (tx_attr tx)\<lparr>read_only := False\<rparr>\<rparr>) g') g')"
    by auto
next
  assume "gclock g < VERSION_MAX \<and> quiesce g \<noteq> 2"
  with assms show "stm_write tx g addr val msk =
              Some (if no_retry (tx_attr tx)
                    then Returns None
                           (aborted_tx (tx\<lparr>tx_attr := (tx_attr tx)\<lparr>read_only := False\<rparr>\<rparr>))
                           (run_callbacks On_abort (nb_abort_cb g) g)
                    else Longjmp STM_ABORT_RO_WRITE
                           (restarted_tx (tx\<lparr>tx_attr := (tx_attr tx)\<lparr>read_only := False\<rparr>\<rparr>) g)
                           (run_callbacks On_abort (nb_abort_cb g) g))"
    by (simp add: stm_write_def stm_rollback_plain)
qed

lemma ex_GET_LOCK_160: "GET_LOCK 160 = 5"
  by (simp add: lock_word_defs)

lemma VERSION_MAX_val: "VERSION_MAX = 0x7FFFFFFFFFFFDFFF"
  by (simp add: VERSION_MAX_def LOCK_BITS_def OWNED_BITS_def MAX_THREADS_def mask_eq_exp_minus_1)

lemma ex_clock_ok: "gclock ex_global < VERSION_MAX" "quiesce ex_global \<noteq> 2"
  by (simp_all add: ex_defs VERSION_MAX_val)

lemma ex_ro_hyps:
  "tx_ro (ex_tx\<lparr>tx_ro := True\<rparr>)" "IS_ACTIVE (tx_status (ex_tx\<lparr>tx_ro := True\<rparr>))"
  "nb_acquired (w_set (ex_tx\<lparr>tx_ro := True\<rparr>)) = 0"
  by (simp_all add: ex_defs IS_ACTIVE_def)

theorem stm_write_read_only_witness:
  "tx_ro (ex_tx\<lparr>tx_ro := True\<rparr>) \<and> IS_ACTIVE (tx_status (ex_tx\<lparr>tx_ro := True\<rparr>)) \<and>
   nb_acquired (w_set (ex_tx\<lparr>tx_ro := True\<rparr>)) = 0 \<and>
   stm_write (ex_tx\<lparr>tx_ro := True\<rparr>) ex_global 160 1 (NOT 0) =
     Some (Longjmp STM_ABORT_RO_WRITE
            (restarted_tx (ex_tx\<lparr>tx_ro := True\<rparr>) ex_global)
            (run_callbacks On_abort (nb_abort_cb ex_global) ex_global))"
  using stm_write_read_only[OF ex_ro_hyps, of ex_global 160 1 "NOT 0"] ex_ro_hyps ex_clock_ok
  by (simp add: ex_defs)

lemma then_return_eq_Longjmp:
  "then_return r v = Longjmp reason tx g \<longleftrightarrow> r = Longjmp reason tx g"
  by (cases r) auto

text \<open>
  Claim C1, as amended. For a first store to an address whose stripe is unowned and at a
  version above \<open>tx.end\<close>: when \<open>can_extend\<close> is set and the read set does not contain
  the stripe's lock, the write path attempts no snapshot extension; it buffers the store
  and leaves the descriptor otherwise as it was. When extension is disabled or the read
  set contains the lock, it aborts with \<open>VAL_WRITE\<close>. A store leaves with the jump
  \<open>VAL_WRITE\<close> only in that second case.
\<close>

theorem stm_write_newer_version:
  "(IS_ACTIVE (tx_status tx) \<and> \<not> tx_ro tx \<and> nb_acquired (w_set tx) = 0 \<and>
    LOCK_GET_OWNED (locks g (GET_LOCK addr)) = 0 \<and> stm_has_written tx addr = None \<and>
    LOCK_GET_TIMESTAMP (locks g (GET_LOCK addr)) > tx_end tx \<and>
    tx_can_extend tx \<and> stm_has_read tx (GET_LOCK addr) = None \<and>
    length (w_entries (w_set tx)) < w_size (w_set tx) \<longrightarrow>
      stm_write tx g addr val msk =
        Some (Returns (Some (length (w_entries (w_set tx))))
                (append_w_entry tx (new_w_entry g addr val msk)) g))
   \<and>
   (IS_ACTIVE (tx_status tx) \<and> \<not> tx_ro tx \<and> nb_acquired (w_set tx) = 0 \<and>
    LOCK_GET_OWNED (locks g (GET_LOCK addr)) = 0 \<and> stm_has_written tx addr = None \<and>
    LOCK_GET_TIMESTAMP (locks g (GET_LOCK addr)) > tx_end tx \<and>
    (\<not> tx_can_extend tx \<or> stm_has_read tx (GET_LOCK addr) \<noteq> None) \<longrightarrow>
      stm_write tx g addr val msk =
        map_option (\<lambda>r. then_return r None) (stm_rollback tx g STM_ABORT_VAL_WRITE) \<and>
      (\<forall>r. stm_write tx g addr val msk = Some r \<longrightarrow>
         (\<exists>g'. mem g' = mem g \<and>
            (r = Returns None (aborted_tx tx) g' \<or>
             r = Longjmp STM_ABORT_VAL_WRITE (restarted_tx tx g') g'))))
   \<and>
   (\<forall>tx' g'. stm_write tx g addr val msk = Some (Longjmp STM_ABORT_VAL_WRITE tx' g') \<longrightarrow>
      LOCK_GET_TIMESTAMP (locks g (GET_LOCK addr)) > tx_end tx \<and>
      (\<not> tx_can_extend tx \<or> stm_has_read tx (GET_LOCK addr) \<noteq> None))"
proof (intro conjI impI allI)
  assume "IS_ACTIVE (tx_status tx) \<and> \<not> tx_ro tx \<and> nb_acquired (w_set tx) = 0 \<and>
    LOCK_GET_OWNED (locks g (GET_LOCK addr)) = 0 \<and> stm_has_written tx addr = None \<and>
    LOCK_GET_TIMESTAMP (locks g (GET_LOCK addr)) > tx_end tx \<and>
    tx_can_extend tx \<and> stm_has_read tx (GET_LOCK addr) = None \<and>
    length (w_entries (w_set tx)) < w_size (w_set tx)"
  thus "stm_write tx g addr val msk =
        Some (Returns (Some (length (w_entries (w_set tx))))
                (append_w_entry tx (new_w_entry g addr val msk)) g)"
    by (simp add: stm_write_def Let_def stm_write_wait_unowned append_w_entry_def new_w_entry_def)
next
  assume a: "IS_ACTIVE (tx_status tx) \<and> \<not> tx_ro tx \<and> nb_acquired (w_set tx) = 0 \<and>
    LOCK_GET_OWNED (locks g (GET_LOCK addr)) = 0 \<and> stm_has_written tx addr = None \<and>
    LOCK_GET_TIMESTAMP (locks g (GET_LOCK addr)) > tx_end tx \<and>
    (\<not> tx_can_extend tx \<or> stm_has_read tx (GET_LOCK addr) \<noteq> None)"
  thus eq: "stm_write tx g addr val msk =
        map_option (\<lambda>r. then_return r None) (stm_rollback tx g STM_ABORT_VAL_WRITE)"
    by (cases "stm_rollback tx g STM_ABORT_VAL_WRITE")
       (auto simp: stm_write_def Let_def stm_write_wait_unowned)
  fix r assume "stm_write tx g addr val msk = Some r"
  with eq obtain r0 where r0: "stm_rollback tx g STM_ABORT_VAL_WRITE = Some r0"
    and r: "r = then_return r0 None"
    by (cases "stm_rollback tx g STM_ABORT_VAL_WRITE") auto
  from stm_rollback_result[OF r0] a obtain g' where
    "mem g' = mem g"
    "r0 = Returns () (aborted_tx tx) g' \<or> r0 = Longjmp STM_ABORT_VAL_WRITE (restarted_tx tx g') g'"
    by auto
  with r show "\<exists>g'. mem g' = mem g \<and>
            (r = Returns None (aborted_tx tx) g' \<or>
             r = Longjmp STM_ABORT_VAL_WRITE (restarted_tx tx g') g')"
    by auto
next
  fix tx' g'
  assume w: "stm_write tx g addr val msk = Some (Longjmp STM_ABORT_VAL_WRITE tx' g')"
  have ro: "\<not> tx_ro tx"
  proof
    assume "tx_ro tx"
    with w obtain r0 where
      "stm_rollback (tx\<lparr>tx_attr := (tx_attr tx)\<lparr>read_only := False\<rparr>\<rparr>) g STM_ABORT_RO_WRITE = Some r0"
      "then_return r0 None = (Longjmp STM_ABORT_VAL_WRITE tx' g' :: nat option result)"
      by (auto simp: stm_write_def split: if_splits bind_splits)
    thus False by (auto simp: then_return_eq_Longjmp dest: stm_rollback_reason)
  qed
  from w ro obtain l where l: "stm_write_wait g (GET_LOCK addr) = Some l"
    by (auto simp: stm_write_def Let_def split: if_splits bind_splits)
  hence ll: "l = locks g (GET_LOCK addr)" by (simp add: stm_write_wait_Some)
  from w ro l ll
  show "LOCK_GET_TIMESTAMP (locks g (GET_LOCK addr)) > tx_end tx"
    by (auto simp: stm_write_def Let_def split: if_splits option.splits sum.splits prod.splits)
  from w ro l ll
  show "\<not> tx_can_extend tx \<or> stm_has_read tx (GET_LOCK addr) \<noteq> None"
    by (auto simp: stm_write_def Let_def split: if_splits option.splits sum.splits prod.splits)
qed

lemma ex_stale_hyps:
  "IS_ACTIVE (tx_status ex_tx_stale) \<and> \<not> tx_ro ex_tx_stale \<and>
   nb_acquired (w_set ex_tx_stale) = 0 \<and>
   LOCK_GET_OWNED (locks ex_global (GET_LOCK 160)) = 0 \<and>
   stm_has_written ex_tx_stale 160 = None \<and>
   LOCK_GET_TIMESTAMP (locks ex_global (GET_LOCK 160)) > tx_end ex_tx_stale \<and>
   tx_can_extend ex_tx_stale \<and> stm_has_read ex_tx_stale (GET_LOCK 160) = None \<and>
   length (w_entries (w_set ex_tx_stale)) < w_size (w_set ex_tx_stale)"
  by (simp add: ex_GET_LOCK_160 ex_defs IS_ACTIVE_def stm_has_written_def stm_has_read_def
      LOCK_GET_OWNED_def OWNED_MASK_def LOCK_GET_TIMESTAMP_def OWNED_BITS_def)

lemma ex_stale2_hyps:
  "IS_ACTIVE (tx_status ex_tx_stale2) \<and> \<not> tx_ro ex_tx_stale2 \<and>
   nb_acquired (w_set ex_tx_stale2) = 0 \<and>
   LOCK_GET_OWNED (locks ex_global (GET_LOCK 160)) = 0 \<and>
   stm_has_written ex_tx_stale2 160 = None \<and>
   LOCK_GET_TIMESTAMP (locks ex_global (GET_LOCK 160)) > tx_end ex_tx_stale2 \<and>
   (\<not> tx_can_extend ex_tx_stale2 \<or> stm_has_read ex_tx_stale2 (GET_LOCK 160) \<noteq> None)"
  by (simp add: ex_GET_LOCK_160 ex_defs IS_ACTIVE_def stm_has_written_def stm_has_read_def
      LOCK_GET_OWNED_def OWNED_MASK_def LOCK_GET_TIMESTAMP_def OWNED_BITS_def)

lemma ex_stale2_rollback:
  "stm_rollback ex_tx_stale2 ex_global STM_ABORT_VAL_WRITE =
     Some (Longjmp STM_ABORT_VAL_WRITE (restarted_tx ex_tx_stale2 ex_global)
             (run_callbacks On_abort (nb_abort_cb ex_global) ex_global))"
  using ex_stale2_hyps ex_clock_ok
  by (subst stm_rollback_plain) (simp_all, simp add: ex_defs)

theorem stm_write_newer_version_witness:
  "stm_write ex_tx_stale ex_global 160 1 (NOT 0) =
     Some (Returns (Some (length (w_entries (w_set ex_tx_stale))))
             (append_w_entry ex_tx_stale (new_w_entry ex_global 160 1 (NOT 0))) ex_global) \<and>
   stm_write ex_tx_stale2 ex_global 160 1 (NOT 0) =
     Some (Longjmp STM_ABORT_VAL_WRITE (restarted_tx ex_tx_stale2 ex_global)
             (run_callbacks On_abort (nb_abort_cb ex_global) ex_global)) \<and>
   LOCK_GET_TIMESTAMP (locks ex_global (GET_LOCK 160)) > tx_end ex_tx_stale2 \<and>
   stm_has_read ex_tx_stale2 (GET_LOCK 160) \<noteq> None"
proof -
  note thm1 = stm_write_newer_version[of ex_tx_stale ex_global 160 1 "NOT 0"]
  note thm2 = stm_write_newer_version[of ex_tx_stale2 ex_global 160 1 "NOT 0"]
  have a: "stm_write ex_tx_stale ex_global 160 1 (NOT 0) =
     Some (Returns (Some (length (w_entries (w_set ex_tx_stale))))
             (append_w_entry ex_tx_stale (new_w_entry ex_global 160 1 (NOT 0))) ex_global)"
    by (rule thm1[THEN conjunct1, THEN mp, OF ex_stale_hyps])
  have "stm_write ex_tx_stale2 ex_global 160 1 (NOT 0) =
          map_option (\<lambda>r. then_return r None)
            (stm_rollback ex_tx_stale2 ex_global STM_ABORT_VAL_WRITE)"
    by (rule thm2[THEN conjunct2, THEN conjunct1, THEN mp, OF ex_stale2_hyps, THEN conjunct1])
  hence b: "stm_write ex_tx_stale2 ex_global 160 1 (NOT 0) =
     Some (Longjmp STM_ABORT_VAL_WRITE (restarted_tx ex_tx_stale2 ex_global)
             (run_callbacks On_abort (nb_abort_cb ex_global) ex_global))"
    by (simp only: ex_stale2_rollback option.map then_return.simps)
  have c: "LOCK_GET_TIMESTAMP (locks ex_global (GET_LOCK 160)) > tx_end ex_tx_stale2 \<and>
           (\<not> tx_can_extend ex_tx_stale2 \<or> stm_has_read ex_tx_stale2 (GET_LOCK 160) \<noteq> None)"
    by (rule thm2[THEN conjunct2, THEN conjunct2, THEN spec, THEN spec, THEN mp, OF b])
  have d: "tx_can_extend ex_tx_stale2" by (simp add: ex_defs)
  from c d have e: "stm_has_read ex_tx_stale2 (GET_LOCK 160) \<noteq> None" by blast
  show ?thesis by (intro conjI) (rule a, rule b, rule c[THEN conjunct1], rule e)
qed

text \<open>
  The claim as written fails: here the version exceeds \<open>tx.end\<close>, \<open>can_extend\<close> is
  set, the lock is not in the read set and an extension would fail (the read set is
  stale), yet the store is buffered and the transaction goes on.
\<close>

lemma ex_stale_extend_fails: "stm_extend ex_tx_stale ex_global = Inr (False, ex_tx_stale)"
  by (simp add: stm_extend_def stm_validate_def Let_def ex_defs lock_word_defs)

theorem stm_write_extension_counterexample:
  "LOCK_GET_TIMESTAMP (locks ex_global (GET_LOCK 160)) > tx_end ex_tx_stale \<and>
   tx_can_extend ex_tx_stale \<and>
   stm_has_read ex_tx_stale (GET_LOCK 160) = None \<and>
   stm_extend ex_tx_stale ex_global = Inr (False, ex_tx_stale) \<and>
   stm_write ex_tx_stale ex_global 160 1 (NOT 0) =
     Some (Returns (Some 0)
             (ex_tx_stale\<lparr>w_set := (w_set ex_tx_stale)\<lparr>w_entries :=
                [\<lparr>w_addr = 160, w_value = 1, w_mask = NOT 0, w_version = 3, w_lock = 5,
                  w_no_drop = True\<rparr>]\<rparr>\<rparr>)
             ex_global)"
proof -
  have "stm_write_wait ex_global 5 = Some 6"
    by (subst stm_write_wait.simps) (simp add: ex_defs lock_word_defs)
  hence "stm_write ex_tx_stale ex_global 160 1 (NOT 0) =
     Some (Returns (Some 0)
             (ex_tx_stale\<lparr>w_set := (w_set ex_tx_stale)\<lparr>w_entries :=
                [\<lparr>w_addr = 160, w_value = 1, w_mask = NOT 0, w_version = 3, w_lock = 5,
                  w_no_drop = True\<rparr>]\<rparr>\<rparr>)
             ex_global)"
    by (simp add: stm_write_def ex_GET_LOCK_160 Let_def)
       (simp add: ex_defs IS_ACTIVE_def stm_has_written_def stm_has_read_def
          LOCK_GET_TIMESTAMP_def OWNED_BITS_def)
  with ex_stale_hyps ex_stale_extend_fails show ?thesis by simp
qed

section \<open>Waiting for an owned lock (claim C9)\<close>

lemma stm_read_loop_owned:
  assumes "LOCK_GET_WRITE (locks g lock) \<noteq> 0"
  shows "stm_read_loop g addr lock True l0 tx = None"
proof -
  have "False" if "stm_read_loop g addr lock True l0 tx = Some st" for st
    by (rule stm_read_loop.raw_induct
          [where P = "\<lambda>g addr lock reload l0 tx st.
                        reload \<and> LOCK_GET_WRITE (locks g lock) \<noteq> 0 \<longrightarrow> False",
           OF _ that, rule_format])
       (use assms in \<open>simp_all add: Let_def split: if_splits\<close>, blast+)
  thus ?thesis by (cases "stm_read_loop g addr lock True l0 tx") auto
qed

lemma stm_read_loop_unowned:
  assumes "LOCK_GET_WRITE (locks g lock) = 0"
  shows "stm_read_loop g addr lock True l0 tx =
     (let version = LOCK_GET_TIMESTAMP (locks g lock) in
      if version > tx_end tx then
        (if tx_ro tx \<or> \<not> tx_can_extend tx then Some (Read_abort tx)
         else (case stm_extend tx g of
                 Inl f \<Rightarrow> Some (Read_fault f)
               | Inr (ok, tx') \<Rightarrow>
                   if \<not> ok then Some (Read_abort tx')
                   else Some (Read_ok (mem g addr) version tx')))
      else Some (Read_ok (mem g addr) version tx))"
  using assms
  by (subst stm_read_loop.simps) (simp add: Let_def split: sum.splits prod.splits)

lemma LOCK_GET_WRITE_OWNED: "LOCK_GET_WRITE l = LOCK_GET_OWNED l"
  by (simp add: LOCK_GET_WRITE_def LOCK_GET_OWNED_def WRITE_MASK_def OWNED_MASK_def)

text \<open>
  Claim C9, as amended. A transactional load or store that finds the lock word owned reads
  it again, with no bound on the number of turns and no abort of its own: as long as the
  lock word stays owned the operation neither proceeds nor restarts the transaction, and
  with the lock word unowned it goes on at the first load.
\<close>

theorem owned_lock_wait_unbounded:
  "(LOCK_GET_OWNED (locks g lock) \<noteq> 0 \<longrightarrow>
      stm_write_wait g lock = None \<and> stm_read_loop g addr lock True l0 tx = None)
   \<and> (LOCK_GET_OWNED (locks g lock) = 0 \<longrightarrow>
      stm_write_wait g lock = Some (locks g lock) \<and>
      stm_read_loop g addr lock True l0 tx \<noteq> None)
   \<and> (LOCK_GET_OWNED (locks g (GET_LOCK addr)) \<noteq> 0 \<and> IS_ACTIVE (tx_status tx) \<and>
       \<not> tx_ro tx \<longrightarrow> stm_write tx g addr val msk = None)
   \<and> (LOCK_GET_OWNED (locks g (GET_LOCK addr)) \<noteq> 0 \<and> IS_ACTIVE (tx_status tx) \<and>
       stm_has_written tx addr = None \<longrightarrow> stm_read_invisible tx g addr = None)"
proof (intro conjI impI)
  assume "LOCK_GET_OWNED (locks g lock) \<noteq> 0"
  thus "stm_write_wait g lock = None" by (rule stm_write_wait_owned)
next
  assume "LOCK_GET_OWNED (locks g lock) \<noteq> 0"
  thus "stm_read_loop g addr lock True l0 tx = None"
    by (simp add: stm_read_loop_owned LOCK_GET_WRITE_OWNED)
next
  assume "LOCK_GET_OWNED (locks g lock) = 0"
  thus "stm_write_wait g lock = Some (locks g lock)" by (rule stm_write_wait_unowned)
next
  assume "LOCK_GET_OWNED (locks g lock) = 0"
  thus "stm_read_loop g addr lock True l0 tx \<noteq> None"
    by (simp add: stm_read_loop_unowned LOCK_GET_WRITE_OWNED Let_def split: sum.splits prod.splits)
next
  assume "LOCK_GET_OWNED (locks g (GET_LOCK addr)) \<noteq> 0 \<and> IS_ACTIVE (tx_status tx) \<and> \<not> tx_ro tx"
  thus "stm_write tx g addr val msk = None"
    by (simp add: stm_write_def Let_def stm_write_wait_owned)
next
  assume "LOCK_GET_OWNED (locks g (GET_LOCK addr)) \<noteq> 0 \<and> IS_ACTIVE (tx_status tx) \<and>
          stm_has_written tx addr = None"
  thus "stm_read_invisible tx g addr = None"
    by (simp add: stm_read_invisible_def Let_def stm_read_loop_owned LOCK_GET_WRITE_OWNED)
qed

lemma ex_owned_hyps:
  "LOCK_GET_OWNED (locks ex_global_committing (GET_LOCK 160)) \<noteq> 0 \<and>
   IS_ACTIVE (tx_status ex_tx) \<and> \<not> tx_ro ex_tx"
  "LOCK_GET_OWNED (locks ex_global_committing (GET_LOCK 160)) \<noteq> 0 \<and>
   IS_ACTIVE (tx_status ex_tx) \<and> stm_has_written ex_tx 160 = None"
  by (simp_all add: ex_GET_LOCK_160 ex_defs IS_ACTIVE_def LOCK_GET_OWNED_def OWNED_MASK_def
      stm_has_written_def)

theorem owned_lock_wait_unbounded_witness:
  "LOCK_GET_OWNED (locks ex_global_committing (GET_LOCK 160)) \<noteq> 0 \<and>
   stm_write_wait ex_global_committing (GET_LOCK 160) = None \<and>
   stm_write_wait ex_global (GET_LOCK 160) = Some 6 \<and>
   stm_write ex_tx ex_global_committing 160 1 (NOT 0) = None \<and>
   stm_read_invisible ex_tx ex_global_committing 160 = None"
proof -
  note t = owned_lock_wait_unbounded[of ex_global_committing "GET_LOCK 160" 160 0 ex_tx 1 "NOT 0"]
  note u = owned_lock_wait_unbounded[of ex_global "GET_LOCK 160" 160 0 ex_tx 1 "NOT 0"]
  have o: "LOCK_GET_OWNED (locks ex_global_committing (GET_LOCK 160)) \<noteq> 0"
    by (rule ex_owned_hyps(1)[THEN conjunct1])
  have f: "LOCK_GET_OWNED (locks ex_global (GET_LOCK 160)) = 0"
    by (simp add: ex_GET_LOCK_160 ex_defs LOCK_GET_OWNED_def OWNED_MASK_def)
  have "stm_write_wait ex_global (GET_LOCK 160) = Some (locks ex_global (GET_LOCK 160))"
    by (rule u[THEN conjunct2, THEN conjunct1, THEN mp, OF f, THEN conjunct1])
  hence s: "stm_write_wait ex_global (GET_LOCK 160) = Some 6"
    by (simp add: ex_GET_LOCK_160 ex_global_def)
  show ?thesis
    by (intro conjI)
       (rule o, rule t[THEN conjunct1, THEN mp, OF o, THEN conjunct1], rule s,
        rule t[THEN conjunct2, THEN conjunct2, THEN conjunct1, THEN mp, OF ex_owned_hyps(1)],
        rule t[THEN conjunct2, THEN conjunct2, THEN conjunct2, THEN mp, OF ex_owned_hyps(2)])
qed

text \<open>
  The claim as written fails: with lock 5 held by a committing transaction, a store and a
  load of address 160 by another transaction never return.
\<close>

theorem bounded_spin_counterexample:
  "LOCK_GET_OWNED (locks ex_global_committing (GET_LOCK 160)) \<noteq> 0 \<and>
   stm_write ex_tx ex_global_committing 160 1 (NOT 0) = None \<and>
   stm_read_invisible ex_tx ex_global_committing 160 = None"
proof -
  have w: "stm_write_wait ex_global_committing 5 = None"
    by (rule stm_write_wait_owned) (simp add: ex_defs LOCK_GET_OWNED_def OWNED_MASK_def)
  have r: "stm_read_loop ex_global_committing 160 5 True 0 ex_tx = None"
    by (rule stm_read_loop_owned) (simp add: ex_defs LOCK_GET_WRITE_def WRITE_MASK_def)
  have 1: "stm_write ex_tx ex_global_committing 160 1 (NOT 0) = None"
    using w by (simp add: stm_write_def ex_GET_LOCK_160 Let_def ex_tx_active) (simp add: ex_tx_def)
  have 2: "stm_read_invisible ex_tx ex_global_committing 160 = None"
    using r by (simp add: stm_read_invisible_def ex_GET_LOCK_160 Let_def ex_tx_active)
               (simp add: ex_tx_def stm_has_written_def)
  from 1 2 ex_owned_hyps show ?thesis by simp
qed

section \<open>Thread initialisation (claim C10)\<close>

lemma stm_init_thread_explicit_idempotent:
  "stm_get_tx g = Some p \<Longrightarrow> stm_init_thread True raw g = Inr (Some p, g)"
  by (simp add: stm_init_thread_def)

text \<open>
  Claim C10: \<^verbatim>\<open>stm_init_thread\<close> is idempotent per thread; a second call returns the
  thread's descriptor at once, allocates nothing, resets nothing and does not register
  the descriptor again. The build with \<^verbatim>\<open>EXPLICIT_TX_PARAMETER\<close> does so (lemma above).
  In the default build the early return is an empty statement: in \<open>ex_global\<close> the
  calling thread owns the descriptor at 4096, and the call allocates a second descriptor
  at 1048576, with fresh sets, installs it as the thread's descriptor and puts it at the
  head of the registry, which now counts two threads.
\<close>

theorem stm_init_thread_second_call:
  "stm_get_tx ex_global = Some 4096 \<and>
   map_sum id (\<lambda>(r, g'). (r, thread_tx g', threads g', threads_nb g', heap_brk g',
                           map_option (\<lambda>d. (tx_status d, w_base (w_set d))) (descriptors g' 1048576)))
     (stm_init_thread False ex_tx ex_global)
   = Inr (None, Some 1048576, [1048576, 4096], 2, 1376768, Some (TX_IDLE, 1114624))"
  by (simp add: stm_init_thread_def stm_get_tx_def ex_defs malloc_def sizeof_stm_tx_def
      stm_allocate_rs_entries_def stm_allocate_ws_entries_def RW_SET_SIZE_def
      sizeof_r_entry_def sizeof_w_entry_def stm_quiesce_enter_thread_def run_callbacks_def Let_def)

section \<open>Acquiring and releasing the commit locks\<close>

lemma stm_commit_acquire_entry_eq:
  "stm_commit_acquire_entry tx g i =
     (let w = w_entries (w_set tx) ! i;
          l = locks g (w_lock w)
      in if LOCK_GET_OWNED l \<noteq> 0 then
           (if in_w_set (w_set tx) (LOCK_GET_ADDR l) then Some Acq_skip else Some Acq_conflict)
         else Some (Acq_done
                (tx\<lparr>w_set := (w_set tx)\<lparr>w_entries := (w_entries (w_set tx))
                       [i := w\<lparr>w_no_drop := False, w_version := LOCK_GET_TIMESTAMP l\<rparr>],
                     nb_acquired := nb_acquired (w_set tx) + 1\<rparr>\<rparr>)
                (g\<lparr>locks := (locks g)(w_lock w :=
                       LOCK_SET_ADDR_WRITE (w_entry_ptr (w_set tx) i))\<rparr>)))"
  by (subst stm_commit_acquire_entry.simps) (simp add: Let_def ATOMIC_CAS_FULL_def)

lemma restore_lock_fold:
  "lk(w_lock w := LOCK_SET_TIMESTAMP (w_version w)) = restore_lock w lk"
  by (simp add: restore_lock_def)

lemma restore_lock_apply:
  "restore_lock w lk k = (if k = w_lock w then LOCK_SET_TIMESTAMP (w_version w) else lk k)"
  by (simp add: restore_lock_def)

lemma restore_lock_upd:
  "k \<noteq> w_lock w \<Longrightarrow> restore_lock w (lk(k := v)) = (restore_lock w lk)(k := v)"
  by (simp add: restore_lock_def fun_upd_twist)

lemma restore_locks_Cons:
  "restore_locks (w # ws) lk =
     (if w_no_drop w then restore_locks ws lk else restore_locks ws (restore_lock w lk))"
  by (simp add: restore_locks_def)

lemma restore_locks_Nil [simp]: "restore_locks [] lk = lk"
  by (simp add: restore_locks_def)

lemma stm_rollback_loop_eq:
  "0 < n \<Longrightarrow> n = int (length (filter (\<lambda>w. \<not> w_no_drop w) ws)) \<Longrightarrow>
   stm_rollback_loop ws n lk = Inr (0, restore_locks ws lk)"
proof (induction ws arbitrary: n lk)
  case Nil
  then show ?case by simp
next
  case (Cons w ws)
  show ?case
  proof (cases "w_no_drop w")
    case True
    with Cons.prems Cons.IH[of n lk] show ?thesis by (simp add: restore_locks_Cons)
  next
    case False
    show ?thesis
    proof (cases "n - 1 > 0")
      case True
      with False Cons.prems have "n - 1 = int (length (filter (\<lambda>w. \<not> w_no_drop w) ws))" by simp
      from Cons.IH[OF True this, of "restore_lock w lk"] False True show ?thesis
        by (simp add: restore_locks_Cons restore_lock_fold Let_def)
    next
      case F: False
      with False Cons.prems have "filter (\<lambda>w. \<not> w_no_drop w) ws = []" by auto
      hence "restore_locks ws (restore_lock w lk) = restore_lock w lk"
        by (simp add: restore_locks_def)
      with False F Cons.prems show ?thesis
        by (simp add: restore_locks_Cons restore_lock_fold Let_def)
    qed
  qed
qed

lemma restore_locks_other:
  "k \<notin> w_lock ` {w \<in> set ws. \<not> w_no_drop w} \<Longrightarrow> restore_locks ws lk k = lk k"
proof (induction ws arbitrary: lk)
  case Nil
  show ?case by simp
next
  case (Cons w ws)
  from Cons.prems have k: "k \<notin> w_lock ` {w \<in> set ws. \<not> w_no_drop w}" by auto
  show ?case
  proof (cases "w_no_drop w")
    case True
    with Cons.IH[OF k] show ?thesis by (simp add: restore_locks_Cons)
  next
    case False
    with Cons.prems have "k \<noteq> w_lock w" by auto
    hence "restore_lock w lk k = lk k" by (simp only: restore_lock_apply if_False)
    with False Cons.IH[OF k, of "restore_lock w lk"] show ?thesis
      by (simp only: restore_locks_Cons if_False)
  qed
qed

lemma restore_locks_upd:
  "k \<notin> w_lock ` {w \<in> set ws. \<not> w_no_drop w} \<Longrightarrow>
   restore_locks ws (lk(k := v)) = (restore_locks ws lk)(k := v)"
proof (induction ws arbitrary: lk)
  case Nil
  show ?case by simp
next
  case (Cons w ws)
  from Cons.prems have k: "k \<notin> w_lock ` {w \<in> set ws. \<not> w_no_drop w}" by auto
  show ?case
  proof (cases "w_no_drop w")
    case True
    thus ?thesis by (simp only: restore_locks_Cons if_True Cons.IH[OF k])
  next
    case False
    with Cons.prems have ne: "k \<noteq> w_lock w" by auto
    from False show ?thesis
      by (simp only: restore_locks_Cons if_False restore_lock_upd[OF ne] Cons.IH[OF k])
  qed
qed

lemma restore_locks_append:
  "restore_locks (xs @ ys) lk = restore_locks ys (restore_locks xs lk)"
  by (simp add: restore_locks_def)

lemma restore_locks_none:
  "list_all w_no_drop ws \<Longrightarrow> restore_locks ws lk = lk"
  by (induction ws) (auto simp: restore_locks_Cons)

lemma unowned_timestamp_roundtrip:
  assumes "LOCK_GET_OWNED l = 0"
  shows "LOCK_SET_TIMESTAMP (LOCK_GET_TIMESTAMP l) = l"
proof -
  from assms have "take_bit 1 l = 0"
    by (simp add: LOCK_GET_OWNED_def OWNED_MASK_def take_bit_eq_mask)
  with bits_ident[of 1 l] show ?thesis
    by (simp add: LOCK_SET_TIMESTAMP_def LOCK_GET_TIMESTAMP_def OWNED_BITS_def)
qed

lemma owned_after_acquire: "LOCK_GET_OWNED (LOCK_SET_ADDR_WRITE p) \<noteq> 0"
  by (simp add: LOCK_GET_OWNED_def LOCK_SET_ADDR_WRITE_def OWNED_MASK_def WRITE_MASK_def
      and_one_eq mod_2_eq_odd even_or_iff)

lemma acquire_inv_weaken:
  assumes "acquire_inv L0 tx g (Suc i)"
  shows "acquire_inv L0 tx g i"
proof -
  have "set (take i (w_entries (w_set tx))) \<subseteq> set (take (Suc i) (w_entries (w_set tx)))"
    by (rule set_take_subset_set_take) simp
  with assms show ?thesis unfolding acquire_inv_def list_all_iff by blast
qed

lemma acquire_inv_initial:
  "list_all w_no_drop (w_entries (w_set tx)) \<Longrightarrow> nb_acquired (w_set tx) = 0 \<Longrightarrow>
   acquire_inv (locks g) tx g n"
  unfolding acquire_inv_def
  by (auto simp: list_all_iff restore_locks_none filter_empty_conv dest: in_set_takeD)

lemma acquire_inv_step:
  assumes inv: "acquire_inv L0 tx g (Suc i)" and i: "i < length (w_entries (w_set tx))"
    and un: "LOCK_GET_OWNED (locks g (w_lock (w_entries (w_set tx) ! i))) = 0"
    and own: "LOCK_GET_OWNED own \<noteq> 0"
  defines "w \<equiv> w_entries (w_set tx) ! i"
  defines "w' \<equiv> w\<lparr>w_no_drop := False, w_version := LOCK_GET_TIMESTAMP (locks g (w_lock w))\<rparr>"
  shows "acquire_inv L0
           (tx\<lparr>w_set := (w_set tx)\<lparr>w_entries := (w_entries (w_set tx))[i := w'],
                                     nb_acquired := nb_acquired (w_set tx) + 1\<rparr>\<rparr>)
           (g\<lparr>locks := (locks g)(w_lock w := own)\<rparr>) i"
proof -
  let ?es = "w_entries (w_set tx)"
  let ?k = "w_lock w"
  let ?l = "locks g ?k"
  let ?pre = "take i ?es" and ?post = "drop (Suc i) ?es"
  have es: "?es = ?pre @ w # ?post" unfolding w_def using i by (rule id_take_nth_drop)
  have es': "?es[i := w'] = ?pre @ w' # ?post" using i by (rule upd_conv_take_nth_drop)
  from inv have nd: "list_all w_no_drop (take (Suc i) ?es)" by (simp add: acquire_inv_def)
  have "take (Suc i) ?es = ?pre @ [w]" unfolding w_def using i by (rule take_Suc_conv_app_nth)
  with nd have pre_nd: "list_all w_no_drop ?pre" and w_nd: "w_no_drop w" by simp_all
  hence pre_f: "filter (\<lambda>w. \<not> w_no_drop w) ?pre = []"
    by (auto simp: filter_empty_conv list_all_iff)
  from inv have nb: "nb_acquired (w_set tx) = int (length (filter (\<lambda>w. \<not> w_no_drop w) ?es))"
    and L0: "restore_locks (rev ?es) (locks g) = L0"
    and acq: "list_all (\<lambda>w. w_no_drop w \<or>
                  (LOCK_GET_OWNED (locks g (w_lock w)) \<noteq> 0 \<and>
                   LOCK_GET_OWNED (L0 (w_lock w)) = 0 \<and>
                   w_version w = LOCK_GET_TIMESTAMP (L0 (w_lock w)))) ?es"
    by (simp_all add: acquire_inv_def)
  have w'_acq: "\<not> w_no_drop w'" and w'_lock: "w_lock w' = ?k"
    and w'_ver: "w_version w' = LOCK_GET_TIMESTAMP ?l"
    by (simp_all add: w'_def)
  have un': "LOCK_GET_OWNED ?l = 0" using un by (simp add: w_def)
  \<comment> \<open>the lock just taken is not among the locks acquired before\<close>
  have notin: "?k \<notin> w_lock ` {x \<in> set (rev ?post). \<not> w_no_drop x}"
  proof
    assume "?k \<in> w_lock ` {x \<in> set (rev ?post). \<not> w_no_drop x}"
    then obtain x where x: "x \<in> set ?post" "\<not> w_no_drop x" "w_lock x = ?k" by auto
    from x(1) have "x \<in> set ?es" by (rule in_set_dropD)
    with acq x(2) have "LOCK_GET_OWNED (locks g (w_lock x)) \<noteq> 0" by (auto simp: list_all_iff)
    with x(3) un' show False by simp
  qed
  have rl_es: "restore_locks (rev ?es) (locks g) = restore_locks (rev ?post) (locks g)"
  proof -
    have "rev ?es = rev ?post @ w # rev ?pre" by (subst es) simp
    hence "restore_locks (rev ?es) (locks g)
           = restore_locks (w # rev ?pre) (restore_locks (rev ?post) (locks g))"
      by (simp only: restore_locks_append)
    also have "\<dots> = restore_locks (rev ?post) (locks g)"
      using w_nd pre_nd by (simp add: restore_locks_Cons restore_locks_none)
    finally show ?thesis .
  qed
  have L0k: "L0 ?k = ?l"
    using restore_locks_other[OF notin, of "locks g"] L0 rl_es by simp
  have 1: "list_all w_no_drop (take i (?es[i := w']))" using pre_nd by simp
  have 2: "nb_acquired (w_set tx) + 1 = int (length (filter (\<lambda>w. \<not> w_no_drop w) (?es[i := w'])))"
  proof -
    have "length (filter (\<lambda>w. \<not> w_no_drop w) ?es) = length (filter (\<lambda>w. \<not> w_no_drop w) ?post)"
      by (subst es) (simp add: pre_f w_nd)
    moreover have "length (filter (\<lambda>w. \<not> w_no_drop w) (?es[i := w']))
                   = Suc (length (filter (\<lambda>w. \<not> w_no_drop w) ?post))"
      by (subst es') (simp add: pre_f w'_acq)
    ultimately show ?thesis using nb by simp
  qed
  have 3: "restore_locks (rev (?es[i := w'])) ((locks g)(?k := own)) = L0"
  proof -
    have "rev (?es[i := w']) = rev ?post @ w' # rev ?pre" by (subst es') simp
    hence "restore_locks (rev (?es[i := w'])) ((locks g)(?k := own))
           = restore_locks (w' # rev ?pre) (restore_locks (rev ?post) ((locks g)(?k := own)))"
      by (simp only: restore_locks_append)
    also have "restore_locks (rev ?post) ((locks g)(?k := own)) = L0(?k := own)"
      using restore_locks_upd[OF notin, of "locks g" own] L0 rl_es by simp
    also have "restore_locks (w' # rev ?pre) (L0(?k := own)) = restore_lock w' (L0(?k := own))"
      using w'_acq pre_nd by (simp add: restore_locks_Cons restore_locks_none)
    also have "\<dots> = L0(?k := LOCK_SET_TIMESTAMP (LOCK_GET_TIMESTAMP ?l))"
      by (simp add: restore_lock_def w'_lock w'_ver)
    also have "\<dots> = L0" using L0k unowned_timestamp_roundtrip[OF un'] by (simp add: fun_upd_idem)
    finally show ?thesis .
  qed
  have 4: "list_all (\<lambda>x. w_no_drop x \<or>
                  (LOCK_GET_OWNED (((locks g)(?k := own)) (w_lock x)) \<noteq> 0 \<and>
                   LOCK_GET_OWNED (L0 (w_lock x)) = 0 \<and>
                   w_version x = LOCK_GET_TIMESTAMP (L0 (w_lock x)))) (?es[i := w'])"
  proof -
    have "\<And>x. x \<in> set (?es[i := w']) \<Longrightarrow> x = w' \<or> x \<in> set ?es"
      using set_update_subset_insert[of ?es i w'] by auto
    moreover have "LOCK_GET_OWNED (((locks g)(?k := own)) (w_lock w')) \<noteq> 0 \<and>
                   LOCK_GET_OWNED (L0 (w_lock w')) = 0 \<and>
                   w_version w' = LOCK_GET_TIMESTAMP (L0 (w_lock w'))"
      using own un' L0k by (simp add: w'_lock w'_ver)
    moreover have "\<And>x. x \<in> set ?es \<Longrightarrow> w_no_drop x \<or>
                  (LOCK_GET_OWNED (((locks g)(?k := own)) (w_lock x)) \<noteq> 0 \<and>
                   LOCK_GET_OWNED (L0 (w_lock x)) = 0 \<and>
                   w_version x = LOCK_GET_TIMESTAMP (L0 (w_lock x)))"
      using acq own by (auto simp: list_all_iff)
    ultimately show ?thesis unfolding list_all_iff by blast
  qed
  from 1 2 3 4 show ?thesis by (simp add: acquire_inv_def)
qed

lemma acquire_inv_weaken0: "acquire_inv L0 tx g n \<Longrightarrow> acquire_inv L0 tx g 0"
  by (simp add: acquire_inv_def)

lemma acquire_frame_refl: "acquire_frame tx g tx g"
  by (simp add: acquire_frame_def)

lemma acquire_frame_trans:
  "acquire_frame tx g tx1 g1 \<Longrightarrow> acquire_frame tx1 g1 tx2 g2 \<Longrightarrow> acquire_frame tx g tx2 g2"
proof -
  assume a: "acquire_frame tx g tx1 g1" and b: "acquire_frame tx1 g1 tx2 g2"
  from a have e1: "tx1 = tx\<lparr>w_set := w_set tx1\<rparr>" and f1: "g1 = g\<lparr>locks := locks g1\<rparr>"
    by (simp_all add: acquire_frame_def)
  from b have e2: "tx2 = tx1\<lparr>w_set := w_set tx2\<rparr>" and f2: "g2 = g1\<lparr>locks := locks g2\<rparr>"
    by (simp_all add: acquire_frame_def)
  from arg_cong[OF e1, of "\<lambda>t. t\<lparr>w_set := w_set tx2\<rparr>"]
  have "tx1\<lparr>w_set := w_set tx2\<rparr> = tx\<lparr>w_set := w_set tx2\<rparr>" by simp
  with e2 have 1: "tx2 = tx\<lparr>w_set := w_set tx2\<rparr>" by simp
  from arg_cong[OF f1, of "\<lambda>t. t\<lparr>locks := locks g2\<rparr>"]
  have "g1\<lparr>locks := locks g2\<rparr> = g\<lparr>locks := locks g2\<rparr>" by simp
  with f2 have 2: "g2 = g\<lparr>locks := locks g2\<rparr>" by simp
  from a b have "length (w_entries (w_set tx2)) = length (w_entries (w_set tx)) \<and>
     w_base (w_set tx2) = w_base (w_set tx) \<and> w_size (w_set tx2) = w_size (w_set tx)"
    by (simp add: acquire_frame_def)
  with 1 2 show ?thesis unfolding acquire_frame_def by blast
qed

lemma stm_commit_acquire_entry_inv:
  assumes "acquire_inv L0 tx g (Suc i)" "i < length (w_entries (w_set tx))"
    and "stm_commit_acquire_entry tx g i = Some (Acq_done tx' g')"
  shows "acquire_inv L0 tx' g' i \<and> acquire_frame tx g tx' g'"
proof -
  from assms(3) have un: "LOCK_GET_OWNED (locks g (w_lock (w_entries (w_set tx) ! i))) = 0"
    by (auto simp: stm_commit_acquire_entry_eq Let_def split: if_splits)
  with assms(3) have tx': "tx' = tx\<lparr>w_set := (w_set tx)\<lparr>w_entries := (w_entries (w_set tx))
                       [i := (w_entries (w_set tx) ! i)\<lparr>w_no_drop := False,
                          w_version := LOCK_GET_TIMESTAMP (locks g (w_lock (w_entries (w_set tx) ! i)))\<rparr>],
                     nb_acquired := nb_acquired (w_set tx) + 1\<rparr>\<rparr>"
    and g': "g' = g\<lparr>locks := (locks g)(w_lock (w_entries (w_set tx) ! i) :=
                       LOCK_SET_ADDR_WRITE (w_entry_ptr (w_set tx) i))\<rparr>"
    by (auto simp: stm_commit_acquire_entry_eq Let_def)
  from acquire_inv_step[OF assms(1,2) un owned_after_acquire, of "w_entry_ptr (w_set tx) i"]
  have "acquire_inv L0 tx' g' i" unfolding tx' g' .
  moreover have "acquire_frame tx g tx' g'" by (simp add: acquire_frame_def tx' g')
  ultimately show ?thesis ..
qed

lemma stm_commit_acquire_entry_other:
  assumes "stm_commit_acquire_entry tx g i = Some s" "s = Acq_skip \<or> s = Acq_conflict"
  shows "LOCK_GET_OWNED (locks g (w_lock (w_entries (w_set tx) ! i))) \<noteq> 0"
  using assms by (auto simp: stm_commit_acquire_entry_eq Let_def split: if_splits)

lemma stm_commit_acquire_inv:
  assumes "acquire_inv L0 tx g (Suc i)" "i < length (w_entries (w_set tx))"
    and "stm_commit_acquire i tx g = Some (ok, tx', g')"
  shows "acquire_inv L0 tx' g' 0 \<and> acquire_frame tx g tx' g'"
  using assms
proof (induction i arbitrary: tx g)
  case 0
  from 0(3) obtain s where s: "stm_commit_acquire_entry tx g 0 = Some s"
    and r: "(ok, tx', g') = (case s of Acq_skip \<Rightarrow> (True, tx, g) | Acq_conflict \<Rightarrow> (False, tx, g)
                              | Acq_done tx1 g1 \<Rightarrow> (True, tx1, g1))"
    by (auto split: bind_splits)
  show ?case
  proof (cases s)
    case (Acq_done tx1 g1)
    with r stm_commit_acquire_entry_inv[OF 0(1,2) s[unfolded Acq_done]] show ?thesis by simp
  qed (use r 0(1) in \<open>auto simp: acquire_frame_refl intro: acquire_inv_weaken0\<close>)
next
  case (Suc i)
  from Suc.prems(3) obtain s where s: "stm_commit_acquire_entry tx g (Suc i) = Some s"
    and r: "(case s of Acq_skip \<Rightarrow> stm_commit_acquire i tx g | Acq_conflict \<Rightarrow> Some (False, tx, g)
              | Acq_done tx1 g1 \<Rightarrow> stm_commit_acquire i tx1 g1) = Some (ok, tx', g')"
    by (auto split: bind_splits)
  show ?case
  proof (cases s)
    case Acq_skip
    with r have "stm_commit_acquire i tx g = Some (ok, tx', g')" by simp
    from Suc.IH[OF acquire_inv_weaken[OF Suc.prems(1)] _ this] Suc.prems(2) show ?thesis by simp
  next
    case Acq_conflict
    with r Suc.prems(1) show ?thesis
      by (auto simp: acquire_frame_refl intro: acquire_inv_weaken0)
  next
    case (Acq_done tx1 g1)
    from stm_commit_acquire_entry_inv[OF Suc.prems(1,2) s[unfolded Acq_done]]
    have i1: "acquire_inv L0 tx1 g1 (Suc i)" and f1: "acquire_frame tx g tx1 g1" by simp_all
    from f1 Suc.prems(2) have l1: "i < length (w_entries (w_set tx1))"
      by (simp add: acquire_frame_def)
    from r Acq_done have "stm_commit_acquire i tx1 g1 = Some (ok, tx', g')" by simp
    from Suc.IH[OF i1 l1 this] f1 show ?thesis by (blast intro: acquire_frame_trans)
  qed
qed

lemma acquire_inv_rollback_locks:
  assumes "acquire_inv L0 tx g n"
  shows "stm_rollback_locks tx g =
           Inr (tx\<lparr>w_set := (w_set tx)\<lparr>nb_acquired := 0\<rparr>\<rparr>, g\<lparr>locks := L0\<rparr>)"
proof (cases "nb_acquired (w_set tx) > 0")
  case True
  from assms have nb: "nb_acquired (w_set tx)
      = int (length (filter (\<lambda>w. \<not> w_no_drop w) (rev (w_entries (w_set tx)))))"
    and L0: "restore_locks (rev (w_entries (w_set tx))) (locks g) = L0"
    by (simp_all add: acquire_inv_def rev_filter[symmetric])
  from stm_rollback_loop_eq[OF True nb, of "locks g"] True L0 show ?thesis
    by (simp add: stm_rollback_locks_def)
next
  case False
  from assms have nb: "nb_acquired (w_set tx)
      = int (length (filter (\<lambda>w. \<not> w_no_drop w) (w_entries (w_set tx))))"
    and L0: "restore_locks (rev (w_entries (w_set tx))) (locks g) = L0"
    by (simp_all add: acquire_inv_def)
  from False nb have z: "nb_acquired (w_set tx) = 0"
    and "filter (\<lambda>w. \<not> w_no_drop w) (w_entries (w_set tx)) = []" by auto
  hence "list_all w_no_drop (rev (w_entries (w_set tx)))"
    by (auto simp: filter_empty_conv list_all_iff)
  with L0 have "locks g = L0" by (simp add: restore_locks_none)
  with False z show ?thesis by (simp add: stm_rollback_locks_def)
qed

section \<open>Read versions and the snapshot: the single steps\<close>

lemma stm_rollback_tx:
  assumes "stm_rollback tx g reason = Some r" "result_tx r = Some tx'"
  shows "(r_set tx' = r_set tx \<and> tx_end tx' = tx_end tx) \<or> r_entries (r_set tx') = []"
proof -
  from assms obtain tx1 g1 where l: "stm_rollback_locks tx g = Inr (tx1, g1)"
    by (auto simp: stm_rollback_def split: if_splits sum.splits)
  hence tx1: "r_set tx1 = r_set tx" "tx_end tx1 = tx_end tx" "tx_attr tx1 = tx_attr tx"
    by (auto simp: stm_rollback_locks_def split: if_splits sum.splits prod.splits)
  let ?tx2 = "tx1\<lparr>tx_status := TX_ABORTED, tx_nesting := 1\<rparr>"
  let ?g2 = "run_callbacks On_abort (nb_abort_cb g1) g1"
  show ?thesis
  proof (cases "no_retry (tx_attr tx) \<or> has_STM_ABORT_EXPLICIT reason")
    case True
    with assms l tx1 show ?thesis
      by (auto simp: stm_rollback_def Let_def split: if_splits)
  next
    case False
    with assms l tx1 obtain p where p: "stm_prepare ?tx2 ?g2 = Some p"
      and r: "r = (case p of Inl f \<Rightarrow> Fault f | Inr (tx3, g3) \<Rightarrow> Longjmp reason tx3 g3)"
      by (auto simp: stm_rollback_def Let_def split: if_splits bind_splits sum.splits)
    from stm_prepare_result[OF p] obtain g' where "p = Inr (prepared ?tx2 g', g')"
      by (auto simp: IS_ACTIVE_def)
    with r assms(2) show ?thesis by (auto simp: prepared_def)
  qed
qed

lemma stm_rollback_within_snapshot:
  assumes "stm_rollback tx g reason = Some r" "result_tx r = Some tx'"
    and "read_set_within_snapshot tx"
  shows "read_set_within_snapshot tx'"
  using stm_rollback_tx[OF assms(1,2)] assms(3)
  by (auto simp: read_set_within_snapshot_def)

lemma then_return_tx [simp]: "result_tx (then_return r v) = result_tx r"
  by (cases r) auto

lemma stm_extend_within_snapshot:
  assumes "stm_extend tx g = Inr (ok, tx')" "read_set_within_snapshot tx" "tx_end tx \<le> gclock g"
  shows "read_set_within_snapshot tx'"
  using assms
  by (fastforce simp: stm_extend_def Let_def read_set_within_snapshot_def list_all_iff
      split: if_splits sum.splits)

lemma stm_extend_frame:
  assumes "stm_extend tx g = Inr (ok, tx')"
  shows "tx' = (if ok then tx\<lparr>tx_end := gclock g\<rparr> else tx)"
  using assms by (auto simp: stm_extend_def Let_def split: if_splits sum.splits)

lemma stm_allocate_rs_entries_frame:
  assumes "stm_allocate_rs_entries tx g ext = Inr (tx', g')"
  shows "r_entries (r_set tx') = r_entries (r_set tx) \<and> tx_end tx' = tx_end tx \<and>
         w_set tx' = w_set tx \<and> tx_status tx' = tx_status tx \<and> mem g' = mem g \<and>
         locks g' = locks g"
  using assms
  by (auto simp: stm_allocate_rs_entries_def malloc_def realloc_def
      split: if_splits option.splits)

lemma stm_read_invisible_within_snapshot:
  assumes "stm_read_invisible tx g addr = Some r" "result_tx r = Some tx'"
    and inv: "read_set_within_snapshot tx"
    and "tx_end tx \<le> gclock g" "LOCK_GET_TIMESTAMP (locks g (GET_LOCK addr)) \<le> gclock g"
  shows "read_set_within_snapshot tx'"
proof (cases "stm_has_written tx addr \<noteq> None \<and>
              w_mask (w_entries (w_set tx) ! the (stm_has_written tx addr)) = NOT 0")
  case True
  with assms show ?thesis by (auto simp: stm_read_invisible_def Let_def split: if_splits)
next
  case False
  from assms(1,2) have act: "IS_ACTIVE (tx_status tx)"
    by (auto simp: stm_read_invisible_def split: if_splits)
  with False assms(1) obtain st where st: "stm_read_loop g addr (GET_LOCK addr) True 0 tx = Some st"
    by (auto simp: stm_read_invisible_def Let_def split: if_splits bind_splits)
  hence un: "LOCK_GET_WRITE (locks g (GET_LOCK addr)) = 0"
    using stm_read_loop_owned[of g "GET_LOCK addr" addr 0 tx] by auto
  note cf = st[unfolded stm_read_loop_unowned[OF un]]
  show ?thesis
  proof (cases st)
    case (Read_fault f)
    with False act assms(1,2) st show ?thesis
      by (auto simp: stm_read_invisible_def Let_def)
  next
    case (Read_abort tx1)
    with cf have "tx1 = tx"
      by (auto simp: Let_def split: if_splits sum.splits prod.splits dest: stm_extend_frame)
    with Read_abort False act assms(1,2) st obtain x where
      "stm_rollback tx g STM_ABORT_VAL_READ = Some x" "result_tx x = Some tx'"
      by (auto simp: stm_read_invisible_def Let_def split: bind_splits)
    from stm_rollback_within_snapshot[OF this inv] show ?thesis .
  next
    case (Read_ok val version tx1)
    with cf have v: "version = LOCK_GET_TIMESTAMP (locks g (GET_LOCK addr))"
      and tx1: "tx1 = tx \<and> version \<le> tx_end tx \<or> tx1 = tx\<lparr>tx_end := gclock g\<rparr>"
      by (auto simp: Let_def split: if_splits sum.splits prod.splits dest: stm_extend_frame)
    from tx1 inv assms(4,5) v have inv1: "read_set_within_snapshot tx1" and le: "version \<le> tx_end tx1"
      by (fastforce simp: read_set_within_snapshot_def list_all_iff)+
    from Read_ok False act assms(1,2) st inv1 le show ?thesis
      by (auto simp: stm_read_invisible_def Let_def read_set_within_snapshot_def
          split: if_splits sum.splits dest!: stm_allocate_rs_entries_frame)
  qed
qed

lemma stm_set_extension_within_snapshot:
  assumes "read_set_within_snapshot tx"
  shows "read_set_within_snapshot (stm_set_extension tx enable None)"
    and "list_all (\<lambda>r. r_version r \<le> ts) (r_entries (r_set tx)) \<Longrightarrow>
         read_set_within_snapshot (stm_set_extension tx enable (Some ts))"
  using assms
  by (auto simp: stm_set_extension_def read_set_within_snapshot_def Let_def)

section \<open>Shared memory is written by a successful commit only\<close>

lemma stm_commit_acquire_entry_frame:
  "stm_commit_acquire_entry tx g i = Some (Acq_done tx' g') \<Longrightarrow> acquire_frame tx g tx' g'"
  by (auto simp: stm_commit_acquire_entry_eq Let_def acquire_frame_def split: if_splits)

lemma stm_commit_acquire_frame:
  "stm_commit_acquire i tx g = Some (ok, tx', g') \<Longrightarrow> acquire_frame tx g tx' g'"
proof (induction i arbitrary: tx g)
  case 0
  then obtain s where s: "stm_commit_acquire_entry tx g 0 = Some s"
    and r: "(ok, tx', g') = (case s of Acq_skip \<Rightarrow> (True, tx, g) | Acq_conflict \<Rightarrow> (False, tx, g)
                              | Acq_done tx1 g1 \<Rightarrow> (True, tx1, g1))"
    by (auto split: bind_splits)
  thus ?case
    by (cases s) (auto simp: acquire_frame_refl dest: stm_commit_acquire_entry_frame)
next
  case (Suc i)
  then obtain s where s: "stm_commit_acquire_entry tx g (Suc i) = Some s"
    and r: "(case s of Acq_skip \<Rightarrow> stm_commit_acquire i tx g | Acq_conflict \<Rightarrow> Some (False, tx, g)
              | Acq_done tx1 g1 \<Rightarrow> stm_commit_acquire i tx1 g1) = Some (ok, tx', g')"
    by (auto split: bind_splits)
  show ?case
  proof (cases s)
    case (Acq_done tx1 g1)
    with r have "stm_commit_acquire i tx1 g1 = Some (ok, tx', g')" by simp
    from Suc.IH[OF this] stm_commit_acquire_entry_frame[OF s[unfolded Acq_done]]
    show ?thesis by (blast intro: acquire_frame_trans)
  qed (use r Suc.IH in \<open>auto simp: acquire_frame_refl\<close>)
qed

lemma acquire_frame_fields:
  assumes "acquire_frame tx g tx' g'"
  shows "mem g' = mem g" "gclock g' = gclock g" "quiesce g' = quiesce g"
    "nb_abort_cb g' = nb_abort_cb g" "nb_commit_cb g' = nb_commit_cb g"
    "tx_status tx' = tx_status tx" "tx_start tx' = tx_start tx" "tx_end tx' = tx_end tx"
    "r_set tx' = r_set tx" "tx_attr tx' = tx_attr tx" "tx_nesting tx' = tx_nesting tx"
proof -
  from assms have e: "tx' = tx\<lparr>w_set := w_set tx'\<rparr>" and f: "g' = g\<lparr>locks := locks g'\<rparr>"
    by (simp_all add: acquire_frame_def)
  show "mem g' = mem g" by (subst f) simp
  show "gclock g' = gclock g" by (subst f) simp
  show "quiesce g' = quiesce g" by (subst f) simp
  show "nb_abort_cb g' = nb_abort_cb g" by (subst f) simp
  show "nb_commit_cb g' = nb_commit_cb g" by (subst f) simp
  show "tx_status tx' = tx_status tx" by (subst e) simp
  show "tx_start tx' = tx_start tx" by (subst e) simp
  show "tx_end tx' = tx_end tx" by (subst e) simp
  show "r_set tx' = r_set tx" by (subst e) simp
  show "tx_attr tx' = tx_attr tx" by (subst e) simp
  show "tx_nesting tx' = tx_nesting tx" by (subst e) simp
qed

lemma mem_kept_simps [simp]:
  "mem_kept g (Fault f)"
  "mem_kept g (Returns v tx g') \<longleftrightarrow> mem g' = mem g"
  "mem_kept g (Longjmp reason tx g') \<longleftrightarrow> mem g' = mem g"
  by (simp_all add: mem_kept_def)

lemma mem_kept_then_return [simp]: "mem_kept g (then_return r v) = mem_kept g r"
  by (cases r) simp_all

lemma mem_kept_forget [simp]: "mem_kept g (forget r) = mem_kept g r"
  by (cases r) simp_all

lemma mem_kept_cong: "mem g1 = mem g \<Longrightarrow> mem_kept g1 r = mem_kept g r"
  by (cases r) simp_all

lemma stm_allocate_ws_entries_frame:
  assumes "stm_allocate_ws_entries tx g ext = Inr (tx', g')"
  shows "w_entries (w_set tx') = w_entries (w_set tx) \<and> tx_end tx' = tx_end tx \<and>
         r_set tx' = r_set tx \<and> tx_status tx' = tx_status tx \<and> mem g' = mem g \<and>
         locks g' = locks g \<and> tx_ro tx' = tx_ro tx \<and> tx_can_extend tx' = tx_can_extend tx"
  using assms
  by (auto simp: stm_allocate_ws_entries_def malloc_def realloc_def
      split: if_splits option.splits)

lemma stm_write_mem:
  assumes "stm_write tx g addr val msk = Some r"
  shows "mem_kept g r"
proof (cases "IS_ACTIVE (tx_status tx)")
  case False
  with assms show ?thesis by (auto simp: stm_write_def)
next
  case act: True
  show ?thesis
  proof (cases "tx_ro tx")
    case True
    with act assms obtain r0 where
      "stm_rollback (tx\<lparr>tx_attr := (tx_attr tx)\<lparr>read_only := False\<rparr>\<rparr>) g STM_ABORT_RO_WRITE = Some r0"
      "r = then_return r0 None"
      by (auto simp: stm_write_def split: bind_splits)
    with stm_rollback_mem[OF this(1)] show ?thesis by simp
  next
    case False
    with act assms obtain l where l: "stm_write_wait g (GET_LOCK addr) = Some l"
      by (auto simp: stm_write_def Let_def split: bind_splits)
    show ?thesis
    proof (cases "stm_has_written tx addr")
      case (Some k)
      with act False l assms show ?thesis by (auto simp: stm_write_def Let_def)
    next
      case None
      show ?thesis
      proof (cases "LOCK_GET_TIMESTAMP l > tx_end tx \<and>
                    (\<not> tx_can_extend tx \<or> stm_has_read tx (GET_LOCK addr) \<noteq> None)")
        case True
        with act False l None assms obtain r0 where
          "stm_rollback tx g STM_ABORT_VAL_WRITE = Some r0" "r = then_return r0 None"
          by (auto simp: stm_write_def Let_def split: bind_splits)
        with stm_rollback_mem[OF this(1)] show ?thesis by simp
      next
        case F: False
        with act False l None assms show ?thesis
          by (auto simp: stm_write_def Let_def split: if_splits sum.splits
              dest!: stm_allocate_ws_entries_frame)
      qed
    qed
  qed
qed

lemma stm_read_invisible_mem:
  assumes "stm_read_invisible tx g addr = Some r"
  shows "mem_kept g r"
proof (cases "IS_ACTIVE (tx_status tx) \<and> \<not> (stm_has_written tx addr \<noteq> None \<and>
              w_mask (w_entries (w_set tx) ! the (stm_has_written tx addr)) = NOT 0)")
  case False
  with assms show ?thesis
    by (auto simp: stm_read_invisible_def Let_def split: if_splits)
next
  case True
  with assms obtain st where st: "stm_read_loop g addr (GET_LOCK addr) True 0 tx = Some st"
    by (auto simp: stm_read_invisible_def Let_def split: if_splits bind_splits)
  show ?thesis
  proof (cases st)
    case (Read_ok val version tx1)
    with True assms st show ?thesis
      by (auto simp: stm_read_invisible_def Let_def
          split: if_splits sum.splits dest!: stm_allocate_rs_entries_frame)
  next
    case (Read_abort tx1)
    with True assms st obtain r0 where
      "stm_rollback tx1 g STM_ABORT_VAL_READ = Some r0" "r = then_return r0 0"
      by (auto simp: stm_read_invisible_def Let_def split: bind_splits)
    with stm_rollback_mem[OF this(1)] show ?thesis by simp
  next
    case (Read_fault f)
    with True assms st show ?thesis
      by (auto simp: stm_read_invisible_def Let_def)
  qed
qed

lemma stm_commit_locked_eq:
  "stm_commit_locked tx g =
     (if tx_start tx = gclock g
      then Some (stm_commit_end tx
                  (stm_commit_publish (w_entries (w_set tx)) (gclock g + 1)
                     (g\<lparr>gclock := gclock g + 1\<rparr>)))
      else (case stm_validate tx (g\<lparr>gclock := gclock g + 1\<rparr>) of
              Inl f \<Rightarrow> Some (Fault f)
            | Inr ok \<Rightarrow>
                if ok
                then Some (stm_commit_end tx
                            (stm_commit_publish (w_entries (w_set tx)) (gclock g + 1)
                               (g\<lparr>gclock := gclock g + 1\<rparr>)))
                else map_option (\<lambda>r. then_return r 0)
                       (stm_rollback tx (g\<lparr>gclock := gclock g + 1\<rparr>) STM_ABORT_VALIDATE)))"
proof (cases "tx_start tx = gclock g")
  case True
  thus ?thesis by (simp add: stm_commit_locked_def Let_def)
next
  case False
  show ?thesis
  proof (cases "stm_validate tx (g\<lparr>gclock := gclock g + 1\<rparr>)")
    case (Inl f)
    with False show ?thesis by (simp add: stm_commit_locked_def Let_def)
  next
    case (Inr ok)
    with False show ?thesis
      by (cases "stm_rollback tx (g\<lparr>gclock := gclock g + 1\<rparr>) STM_ABORT_VALIDATE")
         (simp_all add: stm_commit_locked_def Let_def)
  qed
qed

lemma stm_commit_eq:
  assumes "tx_nesting tx \<le> 1" "IS_ACTIVE (tx_status tx)" "w_entries (w_set tx) \<noteq> []"
  shows "stm_commit tx g =
     (case stm_commit_acquire (length (w_entries (w_set tx)) - 1)
             (tx\<lparr>tx_nesting := tx_nesting tx - 1\<rparr>)
             (run_callbacks On_precommit (nb_precommit_cb g) g) of
        None \<Rightarrow> None
      | Some (ok, tx1, g1) \<Rightarrow>
          if ok then stm_commit_locked tx1 g1
          else map_option (\<lambda>r. then_return r 0) (stm_rollback tx1 g1 STM_ABORT_WW_CONFLICT))"
proof (cases "stm_commit_acquire (length (w_entries (w_set tx)) - 1)
             (tx\<lparr>tx_nesting := tx_nesting tx - 1\<rparr>)
             (run_callbacks On_precommit (nb_precommit_cb g) g)")
  case None
  with assms show ?thesis by (simp add: stm_commit_def Let_def)
next
  case (Some a)
  obtain ok tx1 g1 where a: "a = (ok, tx1, g1)" by (cases a)
  show ?thesis
  proof (cases ok)
    case True
    with Some a assms show ?thesis by (simp add: stm_commit_def Let_def)
  next
    case False
    with Some a assms show ?thesis
      by (cases "stm_rollback tx1 g1 STM_ABORT_WW_CONFLICT") (simp_all add: stm_commit_def Let_def)
  qed
qed

lemma stm_commit_nested:
  "tx_nesting tx > 1 \<Longrightarrow>
   stm_commit tx g = Some (Returns 1 (tx\<lparr>tx_nesting := tx_nesting tx - 1\<rparr>) g)"
  by (simp add: stm_commit_def Let_def)

lemma stm_commit_inactive:
  "tx_nesting tx \<le> 1 \<Longrightarrow> \<not> IS_ACTIVE (tx_status tx) \<Longrightarrow>
   stm_commit tx g = Some (Fault Assertion_failure)"
  by (simp add: stm_commit_def Let_def)

lemma stm_commit_empty:
  "tx_nesting tx \<le> 1 \<Longrightarrow> IS_ACTIVE (tx_status tx) \<Longrightarrow> w_entries (w_set tx) = [] \<Longrightarrow>
   stm_commit tx g =
     Some (stm_commit_end (tx\<lparr>tx_nesting := tx_nesting tx - 1\<rparr>)
             (run_callbacks On_precommit (nb_precommit_cb g) g))"
  by (simp add: stm_commit_def Let_def)

lemma stm_commit_mem:
  assumes "stm_commit tx g = Some r"
  shows "mem_kept g r \<or> (\<exists>tx' g'. r = Returns 1 tx' g' \<and> tx_status tx' = TX_COMMITTED)"
proof (cases "tx_nesting tx \<le> 1 \<and> IS_ACTIVE (tx_status tx) \<and> w_entries (w_set tx) \<noteq> []")
  case False
  show ?thesis
  proof (cases "tx_nesting tx \<le> 1")
    case n: False
    hence "tx_nesting tx > 1" by simp
    from assms[unfolded stm_commit_nested[OF this]] show ?thesis by auto
  next
    case n: True
    show ?thesis
    proof (cases "IS_ACTIVE (tx_status tx)")
      case a: False
      from assms[unfolded stm_commit_inactive[OF n a]] show ?thesis by auto
    next
      case a: True
      with n False have e: "w_entries (w_set tx) = []" by simp
      from assms[unfolded stm_commit_empty[OF n a e]] show ?thesis
        by (auto simp: stm_commit_end_def)
    qed
  qed
next
  case True
  let ?tx = "tx\<lparr>tx_nesting := tx_nesting tx - 1\<rparr>"
  let ?g = "run_callbacks On_precommit (nb_precommit_cb g) g"
  from True have h: "tx_nesting tx \<le> 1" "IS_ACTIVE (tx_status tx)" "w_entries (w_set tx) \<noteq> []"
    by simp_all
  from assms[unfolded stm_commit_eq[OF h]] obtain ok tx1 g1 where
    a: "stm_commit_acquire (length (w_entries (w_set tx)) - 1) ?tx ?g = Some (ok, tx1, g1)"
    and r: "(if ok then stm_commit_locked tx1 g1
             else map_option (\<lambda>r. then_return r 0) (stm_rollback tx1 g1 STM_ABORT_WW_CONFLICT)) = Some r"
    by (auto split: option.splits)
  from acquire_frame_fields(1)[OF stm_commit_acquire_frame[OF a]] have m: "mem g1 = mem g" by simp
  show ?thesis
  proof (cases ok)
    case False
    with r obtain r0 where r0: "stm_rollback tx1 g1 STM_ABORT_WW_CONFLICT = Some r0"
      and "r = then_return r0 0"
      by auto
    with stm_rollback_mem[OF r0] show ?thesis by (simp add: mem_kept_cong[OF m])
  next
    case True
    with r have l: "stm_commit_locked tx1 g1 = Some r" by simp
    let ?g1 = "g1\<lparr>gclock := gclock g1 + 1\<rparr>"
    have m1: "mem ?g1 = mem g" using m by simp
    show ?thesis
    proof (cases "tx_start tx1 = gclock g1")
      case True
      with l show ?thesis by (auto simp: stm_commit_locked_eq stm_commit_end_def)
    next
      case ne: False
      show ?thesis
      proof (cases "stm_validate tx1 ?g1")
        case (Inl f)
        with ne l show ?thesis by (auto simp: stm_commit_locked_eq)
      next
        case (Inr okv)
        show ?thesis
        proof (cases okv)
          case True
          with ne Inr l show ?thesis by (auto simp: stm_commit_locked_eq stm_commit_end_def)
        next
          case False
          with ne Inr l obtain r0 where r0: "stm_rollback tx1 ?g1 STM_ABORT_VALIDATE = Some r0"
            and "r = then_return r0 0"
            by (auto simp: stm_commit_locked_eq)
          with stm_rollback_mem[OF r0] show ?thesis by (simp add: mem_kept_cong[OF m1])
        qed
      qed
    qed
  qed
qed

lemma stm_prepare_no_rollover:
  assumes "stm_prepare tx g = Some (Inr (tx', g'))" "gclock g < VERSION_MAX"
  shows "g' = g"
proof -
  from assms(2) have "\<not> VERSION_MAX \<le> gclock g" by simp
  with assms(1) show ?thesis
    by (subst (asm) stm_prepare.simps)
       (auto simp: Let_def split: bind_splits sum.splits prod.splits)
qed

lemma acquire_inv_gclock [simp]:
  "acquire_inv L0 tx (g\<lparr>gclock := c\<rparr>) n = acquire_inv L0 tx g n"
  by (simp add: acquire_inv_def)

lemma acquire_inv_nesting_callbacks:
  "acquire_inv L0 (tx\<lparr>tx_nesting := k\<rparr>) (run_callbacks h m g) n = acquire_inv L0 tx g n"
  by (simp add: acquire_inv_def)

lemma stm_rollback_acquired:
  assumes inv: "acquire_inv L0 tx g n" and act: "IS_ACTIVE (tx_status tx)"
    and rb: "stm_rollback tx g reason = Some r" and g': "result_global r = Some g'"
  shows "mem g' = mem g \<and> (gclock g < VERSION_MAX \<longrightarrow> locks g' = L0)"
proof -
  from stm_rollback_mem[OF rb] g' have m: "mem g' = mem g" by (simp add: mem_kept_def)
  let ?tx1 = "tx\<lparr>w_set := (w_set tx)\<lparr>nb_acquired := 0\<rparr>\<rparr>"
  let ?g1 = "g\<lparr>locks := L0\<rparr>"
  let ?tx2 = "?tx1\<lparr>tx_status := TX_ABORTED, tx_nesting := 1\<rparr>"
  let ?g2 = "run_callbacks On_abort (nb_abort_cb ?g1) ?g1"
  note rl = acquire_inv_rollback_locks[OF inv]
  have "gclock g < VERSION_MAX \<Longrightarrow> locks g' = L0"
  proof (cases "no_retry (tx_attr tx) \<or> has_STM_ABORT_EXPLICIT reason")
    case True
    with rb act rl g' show ?thesis
      by (auto simp: stm_rollback_def Let_def)
  next
    case False
    assume c: "gclock g < VERSION_MAX"
    from False rb act rl obtain p where p: "stm_prepare ?tx2 ?g2 = Some p"
      and r: "r = (case p of Inl f \<Rightarrow> Fault f | Inr (tx3, g3) \<Rightarrow> Longjmp reason tx3 g3)"
      by (auto simp: stm_rollback_def Let_def split: bind_splits sum.splits)
    from r g' obtain tx3 where p': "p = Inr (tx3, g')"
      by (cases p) auto
    from stm_prepare_no_rollover[OF p[unfolded p']] c have "g' = ?g2" by simp
    thus ?thesis by simp
  qed
  with m show ?thesis by blast
qed

lemma tx_step_mem:
  assumes "tx_step op tx g = Some r"
  shows "mem_kept g r \<or> (\<exists>tx' g'. r = Returns () tx' g' \<and> tx_status tx' = TX_COMMITTED)"
proof (cases op)
  case (Op_load addr)
  with assms obtain r0 where "stm_read_invisible tx g addr = Some r0" "r = forget r0"
    by (auto simp: stm_load_def)
  with stm_read_invisible_mem[OF this(1)] show ?thesis by simp
next
  case (Op_store addr val)
  with assms obtain r0 where "stm_write tx g addr val (NOT 0) = Some r0" "r = forget r0"
    by (auto simp: stm_store_def)
  with stm_write_mem[OF this(1)] show ?thesis by simp
next
  case (Op_store2 addr val msk)
  with assms obtain r0 where "stm_write tx g addr val msk = Some r0" "r = forget r0"
    by (auto simp: stm_store2_def)
  with stm_write_mem[OF this(1)] show ?thesis by simp
next
  case Op_commit
  with assms obtain r0 where r0: "stm_commit tx g = Some r0" "r = forget r0" by auto
  from stm_commit_mem[OF r0(1)] r0(2) show ?thesis by auto
next
  case (Op_abort reason)
  with assms have "stm_rollback tx g (STM_ABORT_EXPLICIT_OR reason) = Some r"
    by (simp add: stm_abort_def)
  from stm_rollback_mem[OF this] show ?thesis ..
qed

lemma run_tx_mem:
  "run_tx ops tx g = Some r \<Longrightarrow>
   mem_kept g r \<or> (\<exists>tx' g'. r = Returns () tx' g' \<and> tx_status tx' = TX_COMMITTED)"
proof (induction ops arbitrary: tx g)
  case Nil
  then show ?case by auto
next
  case (Cons op ops)
  from Cons.prems obtain r1 where s: "tx_step op tx g = Some r1"
    and c: "(case r1 of
          Returns _ tx' g' \<Rightarrow>
            if tx_status tx' = TX_ABORTED \<or> tx_status tx' = TX_COMMITTED then Some r1
            else run_tx ops tx' g'
        | Longjmp reason tx' g' \<Rightarrow> Some r1
        | Fault f \<Rightarrow> Some r1) = Some r"
    by (auto split: bind_splits)
  note m1 = tx_step_mem[OF s]
  show ?case
  proof (cases r1)
    case (Returns u tx1 g1)
    show ?thesis
    proof (cases "tx_status tx1 = TX_ABORTED \<or> tx_status tx1 = TX_COMMITTED")
      case True
      with c Returns have "r = r1" by simp
      with m1 show ?thesis by simp
    next
      case False
      with c Returns have run: "run_tx ops tx1 g1 = Some r" by simp
      from m1 Returns False have mg: "mem g1 = mem g" by auto
      from Cons.IH[OF run] show ?thesis unfolding mem_kept_cong[OF mg] .
    qed
  next
    case (Longjmp reason tx1 g1)
    with c m1 show ?thesis by auto
  next
    case (Fault f)
    with c m1 show ?thesis by auto
  qed
qed

section \<open>Aborts and the commit after acquisition (claims C2 and C4)\<close>

lemma is_abort_then_return [simp]: "is_abort (then_return r v) = is_abort r"
  by (cases r) auto

lemma result_global_then_return [simp]: "result_global (then_return r v) = result_global r"
  by (cases r) auto

lemma active_not_aborted: "IS_ACTIVE s \<Longrightarrow> s \<noteq> TX_ABORTED"
  by (auto simp: IS_ACTIVE_def)

lemma stm_commit_abort_restores:
  assumes act: "IS_ACTIVE (tx_status tx)" and nb: "nb_acquired (w_set tx) = 0"
    and nd: "list_all w_no_drop (w_entries (w_set tx))"
    and c: "stm_commit tx g = Some r" and ab: "is_abort r" and g': "result_global r = Some g'"
    and clk: "gclock g < VERSION_MAX" "gclock g + 1 < VERSION_MAX"
  shows "locks g' = locks g \<and> mem g' = mem g"
proof (cases "tx_nesting tx \<le> 1")
  case False
  hence "tx_nesting tx > 1" by simp
  from c[unfolded stm_commit_nested[OF this]] ab act show ?thesis
    by (auto dest: active_not_aborted)
next
  case n: True
  show ?thesis
  proof (cases "w_entries (w_set tx) = []")
    case True
    from c[unfolded stm_commit_empty[OF n act True]] ab show ?thesis
      by (auto simp: stm_commit_end_def)
  next
    case ne: False
    let ?tx = "tx\<lparr>tx_nesting := tx_nesting tx - 1\<rparr>"
    let ?g = "run_callbacks On_precommit (nb_precommit_cb g) g"
    from c[unfolded stm_commit_eq[OF n act ne]] obtain ok tx1 g1 where
      a: "stm_commit_acquire (length (w_entries (w_set tx)) - 1) ?tx ?g = Some (ok, tx1, g1)"
      and r: "(if ok then stm_commit_locked tx1 g1
               else map_option (\<lambda>r. then_return r 0) (stm_rollback tx1 g1 STM_ABORT_WW_CONFLICT)) = Some r"
      by (auto split: option.splits)
    have i0: "acquire_inv (locks g) ?tx ?g (Suc (length (w_entries (w_set tx)) - 1))"
      using acquire_inv_initial[OF nd nb, of g] by (simp add: acquire_inv_nesting_callbacks)
    have lt: "length (w_entries (w_set tx)) - 1 < length (w_entries (w_set ?tx))"
      using ne by simp
    from stm_commit_acquire_inv[OF i0 lt a]
    have inv: "acquire_inv (locks g) tx1 g1 0" and fr: "acquire_frame ?tx ?g tx1 g1" by simp_all
    note ff = acquire_frame_fields[OF fr]
    from ff act have act1: "IS_ACTIVE (tx_status tx1)" by simp
    from ff have m1: "mem g1 = mem g" and c1: "gclock g1 = gclock g" by simp_all
    show ?thesis
    proof (cases ok)
      case False
      with r obtain r0 where r0: "stm_rollback tx1 g1 STM_ABORT_WW_CONFLICT = Some r0"
        and rr: "r = then_return r0 0" by auto
      from g' rr have "result_global r0 = Some g'" by simp
      from stm_rollback_acquired[OF inv act1 r0 this] m1 c1 clk show ?thesis by simp
    next
      case True
      with r have l: "stm_commit_locked tx1 g1 = Some r" by simp
      let ?g1 = "g1\<lparr>gclock := gclock g1 + 1\<rparr>"
      have inv1: "acquire_inv (locks g) tx1 ?g1 0" using inv by simp
      show ?thesis
      proof (cases "tx_start tx1 = gclock g1")
        case True
        with l ab show ?thesis by (auto simp: stm_commit_locked_eq stm_commit_end_def)
      next
        case ns: False
        show ?thesis
        proof (cases "stm_validate tx1 ?g1")
          case (Inl f)
          with ns l g' show ?thesis by (auto simp: stm_commit_locked_eq)
        next
          case (Inr okv)
          show ?thesis
          proof (cases okv)
            case True
            with ns Inr l ab show ?thesis by (auto simp: stm_commit_locked_eq stm_commit_end_def)
          next
            case False
            with ns Inr l obtain r0 where r0: "stm_rollback tx1 ?g1 STM_ABORT_VALIDATE = Some r0"
              and rr: "r = then_return r0 0"
              by (auto simp: stm_commit_locked_eq)
            from g' rr have "result_global r0 = Some g'" by simp
            from stm_rollback_acquired[OF inv1 act1 r0 this] m1 c1 clk show ?thesis by simp
          qed
        qed
      qed
    qed
  qed
qed

lemma acquire_then_release:
  assumes nd: "list_all w_no_drop (w_entries (w_set tx))" and nb: "nb_acquired (w_set tx) = 0"
    and i: "i < length (w_entries (w_set tx))"
    and a: "stm_commit_acquire i tx g = Some (ok, tx1, g1)"
  shows "stm_rollback_locks tx1 g1 =
           Inr (tx1\<lparr>w_set := (w_set tx1)\<lparr>nb_acquired := 0\<rparr>\<rparr>,
                g1\<lparr>locks := restore_locks (rev (w_entries (w_set tx1))) (locks g1)\<rparr>) \<and>
         restore_locks (rev (w_entries (w_set tx1))) (locks g1) = locks g \<and>
         list_all (\<lambda>w. w_no_drop w \<or> w_version w = LOCK_GET_TIMESTAMP (locks g (w_lock w)))
           (w_entries (w_set tx1))"
proof -
  from stm_commit_acquire_inv[OF acquire_inv_initial[OF nd nb] i a]
  have inv: "acquire_inv (locks g) tx1 g1 0" by simp
  hence L: "restore_locks (rev (w_entries (w_set tx1))) (locks g1) = locks g"
    and V: "list_all (\<lambda>w. w_no_drop w \<or> w_version w = LOCK_GET_TIMESTAMP (locks g (w_lock w)))
           (w_entries (w_set tx1))"
    by (auto simp: acquire_inv_def list_all_iff)
  from acquire_inv_rollback_locks[OF inv] L V show ?thesis by simp
qed

text \<open>
  Claim C2. An aborted transaction publishes nothing and gives its locks back. Whatever
  sequence of loads, stores, commit or explicit abort ends in an abort (the jump back, or
  the return under \<open>no_retry\<close>), every word of shared memory is as it was when the
  sequence began. After the acquire phase of a commit, the release walk of the rollback
  stores back, for each lock that was acquired, the version captured at its acquisition,
  and the lock table is again the one from before the acquire phase. An aborting commit,
  below the clock's roll-over, leaves both the lock table and the memory as they were.
\<close>

theorem aborted_transaction_restores:
  "(run_tx ops tx g = Some r \<and> is_abort r \<longrightarrow> mem_kept g r)
   \<and> (list_all w_no_drop (w_entries (w_set tx)) \<and> nb_acquired (w_set tx) = 0 \<and>
       i < length (w_entries (w_set tx)) \<and> stm_commit_acquire i tx g = Some (ok, tx1, g1) \<longrightarrow>
         stm_rollback_locks tx1 g1 =
           Inr (tx1\<lparr>w_set := (w_set tx1)\<lparr>nb_acquired := 0\<rparr>\<rparr>,
                g1\<lparr>locks := restore_locks (rev (w_entries (w_set tx1))) (locks g1)\<rparr>) \<and>
         restore_locks (rev (w_entries (w_set tx1))) (locks g1) = locks g \<and>
         list_all (\<lambda>w. w_no_drop w \<or> w_version w = LOCK_GET_TIMESTAMP (locks g (w_lock w)))
           (w_entries (w_set tx1)))
   \<and> (IS_ACTIVE (tx_status tx) \<and> nb_acquired (w_set tx) = 0 \<and>
       list_all w_no_drop (w_entries (w_set tx)) \<and>
       stm_commit tx g = Some r' \<and> is_abort r' \<and> result_global r' = Some g' \<and>
       gclock g < VERSION_MAX \<and> gclock g + 1 < VERSION_MAX \<longrightarrow>
         locks g' = locks g \<and> mem g' = mem g)"
proof (intro conjI impI)
  assume "run_tx ops tx g = Some r \<and> is_abort r"
  with run_tx_mem[of ops tx g r] show "mem_kept g r" by (cases r) auto
next
  assume "list_all w_no_drop (w_entries (w_set tx)) \<and> nb_acquired (w_set tx) = 0 \<and>
       i < length (w_entries (w_set tx)) \<and> stm_commit_acquire i tx g = Some (ok, tx1, g1)"
  hence h: "list_all w_no_drop (w_entries (w_set tx))" "nb_acquired (w_set tx) = 0"
       "i < length (w_entries (w_set tx))" "stm_commit_acquire i tx g = Some (ok, tx1, g1)"
    by simp_all
  note ar = acquire_then_release[OF h]
  show "stm_rollback_locks tx1 g1 =
           Inr (tx1\<lparr>w_set := (w_set tx1)\<lparr>nb_acquired := 0\<rparr>\<rparr>,
                g1\<lparr>locks := restore_locks (rev (w_entries (w_set tx1))) (locks g1)\<rparr>)"
    by (rule ar[THEN conjunct1])
  show "restore_locks (rev (w_entries (w_set tx1))) (locks g1) = locks g"
    by (rule ar[THEN conjunct2, THEN conjunct1])
  show "list_all (\<lambda>w. w_no_drop w \<or> w_version w = LOCK_GET_TIMESTAMP (locks g (w_lock w)))
           (w_entries (w_set tx1))"
    by (rule ar[THEN conjunct2, THEN conjunct2])
next
  assume a: "IS_ACTIVE (tx_status tx) \<and> nb_acquired (w_set tx) = 0 \<and>
       list_all w_no_drop (w_entries (w_set tx)) \<and>
       stm_commit tx g = Some r' \<and> is_abort r' \<and> result_global r' = Some g' \<and>
       gclock g < VERSION_MAX \<and> gclock g + 1 < VERSION_MAX"
  hence "locks g' = locks g \<and> mem g' = mem g"
    by (intro stm_commit_abort_restores[of tx g r' g']) simp_all
  thus "locks g' = locks g" "mem g' = mem g" by simp_all
qed

text \<open>
  Claim C4. Once the acquire phase of a top-level commit has taken every lock, the commit
  timestamp is the incremented clock, \<open>t = gclock + 1\<close>. When \<open>tx.start = t - 1\<close> the
  write set is published without validation; otherwise the read set is validated, and the
  commit publishes when that succeeds and rolls back with reason \<open>VALIDATE\<close> when it
  fails. A commit that has acquired its locks jumps back for that reason only.
\<close>

theorem stm_commit_after_acquire:
  assumes "tx_nesting tx = 1" "IS_ACTIVE (tx_status tx)" "w_entries (w_set tx) \<noteq> []"
    and "stm_commit_acquire (length (w_entries (w_set tx)) - 1)
           (tx\<lparr>tx_nesting := 0\<rparr>) (run_callbacks On_precommit (nb_precommit_cb g) g)
         = Some (True, tx1, g1)"
  shows "stm_commit tx g =
     (if tx_start tx = gclock g
      then Some (stm_commit_end tx1
                  (stm_commit_publish (w_entries (w_set tx1)) (gclock g + 1)
                     (g1\<lparr>gclock := gclock g + 1\<rparr>)))
      else (case stm_validate tx1 (g1\<lparr>gclock := gclock g + 1\<rparr>) of
              Inl f \<Rightarrow> Some (Fault f)
            | Inr ok \<Rightarrow>
                if ok
                then Some (stm_commit_end tx1
                            (stm_commit_publish (w_entries (w_set tx1)) (gclock g + 1)
                               (g1\<lparr>gclock := gclock g + 1\<rparr>)))
                else map_option (\<lambda>r. then_return r 0)
                       (stm_rollback tx1 (g1\<lparr>gclock := gclock g + 1\<rparr>) STM_ABORT_VALIDATE)))
     \<and> (\<forall>reason tx' g'. stm_commit tx g = Some (Longjmp reason tx' g') \<longrightarrow>
            reason = STM_ABORT_VALIDATE \<and> tx_start tx \<noteq> gclock g \<and>
            stm_validate tx1 (g1\<lparr>gclock := gclock g + 1\<rparr>) = Inr False)"
proof -
  from assms(1) have n: "tx_nesting tx \<le> 1" and n0: "tx_nesting tx - 1 = 0" by simp_all
  note fr = stm_commit_acquire_frame[OF assms(4)]
  note ff = acquire_frame_fields[OF fr]
  from ff have c1: "gclock g1 = gclock g" and s1: "tx_start tx1 = tx_start tx" by simp_all
  have eq: "stm_commit tx g = stm_commit_locked tx1 g1"
    using stm_commit_eq[OF n assms(2,3), of g] assms(4) n0 by simp
  have 1: "stm_commit tx g =
     (if tx_start tx = gclock g
      then Some (stm_commit_end tx1
                  (stm_commit_publish (w_entries (w_set tx1)) (gclock g + 1)
                     (g1\<lparr>gclock := gclock g + 1\<rparr>)))
      else (case stm_validate tx1 (g1\<lparr>gclock := gclock g + 1\<rparr>) of
              Inl f \<Rightarrow> Some (Fault f)
            | Inr ok \<Rightarrow>
                if ok
                then Some (stm_commit_end tx1
                            (stm_commit_publish (w_entries (w_set tx1)) (gclock g + 1)
                               (g1\<lparr>gclock := gclock g + 1\<rparr>)))
                else map_option (\<lambda>r. then_return r 0)
                       (stm_rollback tx1 (g1\<lparr>gclock := gclock g + 1\<rparr>) STM_ABORT_VALIDATE)))"
    unfolding eq stm_commit_locked_eq c1 s1 ..
  have 2: "reason = STM_ABORT_VALIDATE \<and> tx_start tx \<noteq> gclock g \<and>
            stm_validate tx1 (g1\<lparr>gclock := gclock g + 1\<rparr>) = Inr False"
    if "stm_commit tx g = Some (Longjmp reason tx' g')" for reason tx' g'
  proof -
    from that[unfolded 1] have ns: "tx_start tx \<noteq> gclock g"
      by (auto simp: stm_commit_end_def split: if_splits)
    with that[unfolded 1] obtain okv where v: "stm_validate tx1 (g1\<lparr>gclock := gclock g + 1\<rparr>) = Inr okv"
      by (cases "stm_validate tx1 (g1\<lparr>gclock := gclock g + 1\<rparr>)") auto
    with ns that[unfolded 1] have f: "\<not> okv" by (auto simp: stm_commit_end_def split: if_splits)
    with ns v that[unfolded 1] obtain r0 where
      "stm_rollback tx1 (g1\<lparr>gclock := gclock g + 1\<rparr>) STM_ABORT_VALIDATE = Some r0"
      "then_return r0 (0::int) = Longjmp reason tx' g'"
      by auto
    hence "reason = STM_ABORT_VALIDATE"
      by (auto simp: then_return_eq_Longjmp dest: stm_rollback_reason)
    with ns v f show ?thesis by simp
  qed
  from 1 2 show ?thesis by blast
qed

text \<open>
  The stale transaction stores to address 160 and commits: the lock of stripe 5 is
  acquired, the validation of the read set fails, and the rollback gives the lock back.
\<close>

lemmas ex_defs2 = ex_defs ex_tx_stale_w_def
  append_w_entry_def new_w_entry_def

lemma stm_rollback_acquired_plain:
  assumes "acquire_inv L0 tx g n" "IS_ACTIVE (tx_status tx)"
    and "gclock g < VERSION_MAX" "quiesce g \<noteq> 2"
  shows "stm_rollback tx g reason =
    Some (if no_retry (tx_attr tx) \<or> has_STM_ABORT_EXPLICIT reason
          then Returns () (aborted_tx (tx\<lparr>w_set := (w_set tx)\<lparr>nb_acquired := 0\<rparr>\<rparr>))
                 (run_callbacks On_abort (nb_abort_cb g) (g\<lparr>locks := L0\<rparr>))
          else Longjmp reason
                 (restarted_tx (tx\<lparr>w_set := (w_set tx)\<lparr>nb_acquired := 0\<rparr>\<rparr>) g)
                 (run_callbacks On_abort (nb_abort_cb g) (g\<lparr>locks := L0\<rparr>)))"
  using assms(2-4) acquire_inv_rollback_locks[OF assms(1)]
  by (simp add: stm_rollback_def Let_def stm_prepare_plain aborted_tx_def restarted_tx_def)

lemma ex_stale_w_entries:
  "w_entries (w_set ex_tx_stale_w) =
     [\<lparr>w_addr = 160, w_value = 1, w_mask = NOT 0, w_version = 3, w_lock = 5, w_no_drop = True\<rparr>]"
  by (simp add: ex_defs2 ex_GET_LOCK_160 LOCK_GET_TIMESTAMP_def OWNED_BITS_def)

lemma ex_stale_w_acquire:
  "stm_commit_acquire (length (w_entries (w_set ex_tx_stale_w)) - 1)
     (ex_tx_stale_w\<lparr>tx_nesting := 0\<rparr>)
     (run_callbacks On_precommit (nb_precommit_cb ex_global) ex_global)
   = Some (True, ex_tx_stale_acq, ex_global_acq)"
  by (simp add: ex_stale_w_entries stm_commit_acquire_entry_eq Let_def)
     (simp add: ex_defs2 ex_tx_stale_acq_def ex_global_acq_def run_callbacks_def
        LOCK_GET_OWNED_def OWNED_MASK_def LOCK_GET_TIMESTAMP_def OWNED_BITS_def
        LOCK_SET_ADDR_WRITE_def WRITE_MASK_def w_entry_ptr_def ex_GET_LOCK_160)

lemma ex_stale_w_hyps:
  "tx_nesting ex_tx_stale_w = 1" "IS_ACTIVE (tx_status ex_tx_stale_w)"
  "w_entries (w_set ex_tx_stale_w) \<noteq> []"
  "list_all w_no_drop (w_entries (w_set ex_tx_stale_w))" "nb_acquired (w_set ex_tx_stale_w) = 0"
  by (simp_all add: ex_stale_w_entries) (simp_all add: ex_defs2 IS_ACTIVE_def)

lemma ex_stale_acq_inv:
  "acquire_inv (locks ex_global) ex_tx_stale_acq (ex_global_acq\<lparr>gclock := gclock ex_global + 1\<rparr>) 0"
proof -
  have i0: "acquire_inv (locks ex_global) (ex_tx_stale_w\<lparr>tx_nesting := 0\<rparr>)
              (run_callbacks On_precommit (nb_precommit_cb ex_global) ex_global)
              (Suc (length (w_entries (w_set ex_tx_stale_w)) - 1))"
    using acquire_inv_initial[OF ex_stale_w_hyps(4,5), of ex_global]
    by (simp add: acquire_inv_nesting_callbacks)
  have "length (w_entries (w_set ex_tx_stale_w)) - 1
        < length (w_entries (w_set (ex_tx_stale_w\<lparr>tx_nesting := 0\<rparr>)))"
    by (simp add: ex_stale_w_entries)
  from stm_commit_acquire_inv[OF i0 this ex_stale_w_acquire] show ?thesis by simp
qed

lemma ex_stale_acq_validate:
  "stm_validate ex_tx_stale_acq (ex_global_acq\<lparr>gclock := gclock ex_global + 1\<rparr>) = Inr False"
  by (simp add: stm_validate_def ex_tx_stale_acq_def ex_global_acq_def ex_defs2
      LOCK_GET_OWNED_def OWNED_MASK_def LOCK_GET_TIMESTAMP_def OWNED_BITS_def)

lemma ex_stale_acq_rollback:
  "stm_rollback ex_tx_stale_acq (ex_global_acq\<lparr>gclock := gclock ex_global + 1\<rparr>) STM_ABORT_VALIDATE
   = Some (Longjmp STM_ABORT_VALIDATE
ex_tx_retry ex_global_retry)"
proof -
  have a: "IS_ACTIVE (tx_status ex_tx_stale_acq)"
    by (simp add: ex_tx_stale_acq_def ex_defs2 IS_ACTIVE_def)
  have c: "gclock (ex_global_acq\<lparr>gclock := gclock ex_global + 1\<rparr>) < VERSION_MAX"
    "quiesce (ex_global_acq\<lparr>gclock := gclock ex_global + 1\<rparr>) \<noteq> 2"
    by (simp_all add: ex_global_acq_def ex_global_def VERSION_MAX_val)
  have n: "\<not> no_retry (tx_attr ex_tx_stale_acq)" "nb_abort_cb ex_global_acq = nb_abort_cb ex_global"
    by (simp_all add: ex_tx_stale_acq_def ex_global_acq_def ex_defs2 run_callbacks_def)
  from stm_rollback_acquired_plain[OF ex_stale_acq_inv a c, of STM_ABORT_VALIDATE] n
  show ?thesis by (simp add: ex_tx_retry_def ex_global_retry_def)
qed

lemma ex_stale_w_commit:
  "stm_commit ex_tx_stale_w ex_global =
     Some (Longjmp STM_ABORT_VALIDATE ex_tx_retry ex_global_retry)"
proof -
  have ns: "tx_nesting ex_tx_stale_w \<le> 1" using ex_stale_w_hyps(1) by simp
  have n0: "ex_tx_stale_w\<lparr>tx_nesting := tx_nesting ex_tx_stale_w - 1\<rparr> = ex_tx_stale_w\<lparr>tx_nesting := 0\<rparr>"
    using ex_stale_w_hyps(1) by simp
  have s: "tx_start ex_tx_stale_acq \<noteq> gclock ex_global_acq"
    by (simp add: ex_tx_stale_acq_def ex_global_acq_def ex_defs2 run_callbacks_def)
  have c: "gclock ex_global_acq = gclock ex_global"
    by (simp add: ex_global_acq_def)
  show ?thesis
    unfolding stm_commit_eq[OF ns ex_stale_w_hyps(2,3)] n0 ex_stale_w_acquire
    using s by (simp add: stm_commit_locked_eq c ex_stale_acq_validate ex_stale_acq_rollback)
qed

theorem stm_commit_after_acquire_witness:
  "tx_nesting ex_tx_stale_w = 1 \<and> IS_ACTIVE (tx_status ex_tx_stale_w) \<and>
   w_entries (w_set ex_tx_stale_w) \<noteq> [] \<and>
   stm_commit_acquire (length (w_entries (w_set ex_tx_stale_w)) - 1)
     (ex_tx_stale_w\<lparr>tx_nesting := 0\<rparr>)
     (run_callbacks On_precommit (nb_precommit_cb ex_global) ex_global)
   = Some (True, ex_tx_stale_acq, ex_global_acq) \<and>
   tx_start ex_tx_stale_w \<noteq> gclock ex_global \<and>
   stm_validate ex_tx_stale_acq (ex_global_acq\<lparr>gclock := gclock ex_global + 1\<rparr>) = Inr False \<and>
   stm_commit ex_tx_stale_w ex_global =
     Some (Longjmp STM_ABORT_VALIDATE ex_tx_retry ex_global_retry)"
proof -
  note t = stm_commit_after_acquire[OF ex_stale_w_hyps(1,2,3) ex_stale_w_acquire, THEN conjunct2,
              THEN spec, THEN spec, THEN spec, THEN mp, OF ex_stale_w_commit]
  from t ex_stale_w_hyps ex_stale_w_acquire ex_stale_w_commit show ?thesis by simp
qed

lemma ex_stale_run:
  "run_tx [Op_store 160 1, Op_commit] ex_tx_stale ex_global =
     Some (Longjmp STM_ABORT_VALIDATE ex_tx_retry ex_global_retry)"
proof -
  have w: "stm_write ex_tx_stale ex_global 160 1 (NOT 0) =
     Some (Returns (Some (length (w_entries (w_set ex_tx_stale)))) ex_tx_stale_w ex_global)"
  proof -
    have "stm_write_wait ex_global 5 = Some 6"
      by (subst stm_write_wait.simps) (simp add: ex_defs lock_word_defs)
    thus ?thesis
      using ex_stale_hyps
      by (simp add: stm_write_def ex_GET_LOCK_160 Let_def)
         (simp add: ex_tx_stale_w_def append_w_entry_def new_w_entry_def ex_defs ex_GET_LOCK_160
            LOCK_GET_TIMESTAMP_def OWNED_BITS_def)
  qed
  have st: "tx_status ex_tx_stale_w = TX_ACTIVE" by (simp add: ex_defs2)
  from w have w': "stm_write ex_tx_stale ex_global 160 1 (- 1) =
     Some (Returns (Some (length (w_entries (w_set ex_tx_stale)))) ex_tx_stale_w ex_global)"
    by simp
  show ?thesis
    by (simp add: stm_store_def w' st ex_stale_w_commit)
qed

theorem aborted_transaction_restores_witness:
  "run_tx [Op_store 160 1, Op_commit] ex_tx_stale ex_global =
     Some (Longjmp STM_ABORT_VALIDATE ex_tx_retry ex_global_retry) \<and>
   mem ex_global_retry = mem ex_global \<and>
   stm_commit_acquire 0 (ex_tx_stale_w\<lparr>tx_nesting := 0\<rparr>)
     (run_callbacks On_precommit (nb_precommit_cb ex_global) ex_global)
   = Some (True, ex_tx_stale_acq, ex_global_acq) \<and>
   locks ex_global_acq 5 = 65537 \<and>
   stm_rollback_locks ex_tx_stale_acq ex_global_acq =
     Inr (ex_tx_stale_acq\<lparr>w_set := (w_set ex_tx_stale_acq)\<lparr>nb_acquired := 0\<rparr>\<rparr>,
          ex_global_acq\<lparr>locks :=
            restore_locks (rev (w_entries (w_set ex_tx_stale_acq))) (locks ex_global_acq)\<rparr>) \<and>
   restore_locks (rev (w_entries (w_set ex_tx_stale_acq))) (locks ex_global_acq) = locks ex_global \<and>
   stm_commit ex_tx_stale_w ex_global = Some (Longjmp STM_ABORT_VALIDATE ex_tx_retry ex_global_retry) \<and>
   locks ex_global_retry = locks ex_global"
proof -
  note t = aborted_transaction_restores
  have ab: "is_abort (Longjmp STM_ABORT_VALIDATE ex_tx_retry ex_global_retry :: unit result)" by simp
  have 1: "mem_kept ex_global (Longjmp STM_ABORT_VALIDATE ex_tx_retry ex_global_retry :: unit result)"
    by (rule t[of "[Op_store 160 1, Op_commit]" ex_tx_stale ex_global
               "Longjmp STM_ABORT_VALIDATE ex_tx_retry ex_global_retry",
               THEN conjunct1, THEN mp, OF conjI, OF ex_stale_run ab])
  have a0: "stm_commit_acquire 0 (ex_tx_stale_w\<lparr>tx_nesting := 0\<rparr>)
     (run_callbacks On_precommit (nb_precommit_cb ex_global) ex_global)
   = Some (True, ex_tx_stale_acq, ex_global_acq)"
    using ex_stale_w_acquire by (simp add: ex_stale_w_entries)
  have h2: "list_all w_no_drop (w_entries (w_set (ex_tx_stale_w\<lparr>tx_nesting := 0\<rparr>))) \<and>
        nb_acquired (w_set (ex_tx_stale_w\<lparr>tx_nesting := 0\<rparr>)) = 0 \<and>
        0 < length (w_entries (w_set (ex_tx_stale_w\<lparr>tx_nesting := 0\<rparr>))) \<and>
        stm_commit_acquire 0 (ex_tx_stale_w\<lparr>tx_nesting := 0\<rparr>)
          (run_callbacks On_precommit (nb_precommit_cb ex_global) ex_global)
        = Some (True, ex_tx_stale_acq, ex_global_acq)"
    using ex_stale_w_hyps a0 by (simp add: ex_stale_w_entries)
  note 2 = t[of _ "ex_tx_stale_w\<lparr>tx_nesting := 0\<rparr>"
               "run_callbacks On_precommit (nb_precommit_cb ex_global) ex_global" _ 0 True
               ex_tx_stale_acq ex_global_acq,
             THEN conjunct2, THEN conjunct1, THEN mp, OF h2]
  have h3: "IS_ACTIVE (tx_status ex_tx_stale_w) \<and> nb_acquired (w_set ex_tx_stale_w) = 0 \<and>
       list_all w_no_drop (w_entries (w_set ex_tx_stale_w)) \<and>
       stm_commit ex_tx_stale_w ex_global = Some (Longjmp STM_ABORT_VALIDATE ex_tx_retry ex_global_retry) \<and>
       is_abort (Longjmp STM_ABORT_VALIDATE ex_tx_retry ex_global_retry :: int result) \<and>
       result_global (Longjmp STM_ABORT_VALIDATE ex_tx_retry ex_global_retry :: int result)
         = Some ex_global_retry \<and>
       gclock ex_global < VERSION_MAX \<and> gclock ex_global + 1 < VERSION_MAX"
    using ex_stale_w_hyps ex_stale_w_commit ex_clock_ok
    by (simp add: ex_global_def VERSION_MAX_val)
  note 3 = t[of _ ex_tx_stale_w ex_global _ _ _ _ _
               "Longjmp STM_ABORT_VALIDATE ex_tx_retry ex_global_retry" ex_global_retry,
             THEN conjunct2, THEN conjunct2, THEN mp, OF h3]
  have l5: "locks ex_global_acq 5 = 65537" by (simp add: ex_global_acq_def)
  from 1 have m: "mem ex_global_retry = mem ex_global" by simp
  from 2 have r2a: "stm_rollback_locks ex_tx_stale_acq ex_global_acq =
     Inr (ex_tx_stale_acq\<lparr>w_set := (w_set ex_tx_stale_acq)\<lparr>nb_acquired := 0\<rparr>\<rparr>,
          ex_global_acq\<lparr>locks :=
            restore_locks (rev (w_entries (w_set ex_tx_stale_acq))) (locks ex_global_acq)\<rparr>)"
    and r2b: "restore_locks (rev (w_entries (w_set ex_tx_stale_acq))) (locks ex_global_acq) = locks ex_global"
    by simp_all
  show ?thesis
    by (intro conjI) (rule ex_stale_run, rule m, rule a0, rule l5, rule r2a, rule r2b,
                      rule ex_stale_w_commit, rule 3[THEN conjunct1])
qed

section \<open>Read versions never exceed the snapshot (claim C7)\<close>

lemma within_snapshot_cong:
  "r_set tx' = r_set tx \<Longrightarrow> tx_end tx' = tx_end tx \<Longrightarrow>
   read_set_within_snapshot tx' = read_set_within_snapshot tx"
  by (simp add: read_set_within_snapshot_def)

lemma stm_write_within_snapshot:
  assumes "stm_write tx g addr val msk = Some r" "result_tx r = Some tx'"
    and inv: "read_set_within_snapshot tx"
  shows "read_set_within_snapshot tx'"
proof (cases "IS_ACTIVE (tx_status tx)")
  case False
  with assms show ?thesis by (auto simp: stm_write_def)
next
  case act: True
  show ?thesis
  proof (cases "tx_ro tx")
    case True
    let ?tx = "tx\<lparr>tx_attr := (tx_attr tx)\<lparr>read_only := False\<rparr>\<rparr>"
    from True act assms obtain r0 where
      r0: "stm_rollback ?tx g STM_ABORT_RO_WRITE = Some r0" and "r = then_return r0 None"
      by (auto simp: stm_write_def split: bind_splits)
    with assms(2) have t: "result_tx r0 = Some tx'" by simp
    have "read_set_within_snapshot ?tx" using inv by (simp add: read_set_within_snapshot_def)
    from stm_rollback_within_snapshot[OF r0 t this] show ?thesis .
  next
    case False
    with act assms obtain l where l: "stm_write_wait g (GET_LOCK addr) = Some l"
      by (auto simp: stm_write_def Let_def split: bind_splits)
    show ?thesis
    proof (cases "stm_has_written tx addr")
      case (Some k)
      with act False l assms show ?thesis
        by (auto simp: stm_write_def Let_def read_set_within_snapshot_def)
    next
      case None
      show ?thesis
      proof (cases "LOCK_GET_TIMESTAMP l > tx_end tx \<and>
                    (\<not> tx_can_extend tx \<or> stm_has_read tx (GET_LOCK addr) \<noteq> None)")
        case True
        with act False l None assms obtain r0 where
          r0: "stm_rollback tx g STM_ABORT_VAL_WRITE = Some r0" and "r = then_return r0 None"
          by (auto simp: stm_write_def Let_def split: bind_splits)
        with assms(2) have t: "result_tx r0 = Some tx'" by simp
        from stm_rollback_within_snapshot[OF r0 t inv] show ?thesis .
      next
        case F: False
        with act False l None assms inv show ?thesis
          by (auto simp: stm_write_def Let_def read_set_within_snapshot_def
              split: if_splits sum.splits dest!: stm_allocate_ws_entries_frame)
      qed
    qed
  qed
qed

lemma stm_commit_within_snapshot:
  assumes c: "stm_commit tx g = Some r" and t: "result_tx r = Some tx'"
    and inv: "read_set_within_snapshot tx"
  shows "read_set_within_snapshot tx'"
proof (cases "tx_nesting tx \<le> 1")
  case False
  hence "tx_nesting tx > 1" by simp
  from c[unfolded stm_commit_nested[OF this]] t inv show ?thesis
    by (auto simp: read_set_within_snapshot_def)
next
  case n: True
  show ?thesis
  proof (cases "IS_ACTIVE (tx_status tx)")
    case False
    from c[unfolded stm_commit_inactive[OF n False]] t show ?thesis by auto
  next
    case act: True
    show ?thesis
    proof (cases "w_entries (w_set tx) = []")
      case True
      from c[unfolded stm_commit_empty[OF n act True]] t inv show ?thesis
        by (auto simp: stm_commit_end_def read_set_within_snapshot_def)
    next
      case ne: False
      let ?tx = "tx\<lparr>tx_nesting := tx_nesting tx - 1\<rparr>"
      let ?g = "run_callbacks On_precommit (nb_precommit_cb g) g"
      from c[unfolded stm_commit_eq[OF n act ne]] obtain ok tx1 g1 where
        a: "stm_commit_acquire (length (w_entries (w_set tx)) - 1) ?tx ?g = Some (ok, tx1, g1)"
        and r: "(if ok then stm_commit_locked tx1 g1
                 else map_option (\<lambda>r. then_return r 0) (stm_rollback tx1 g1 STM_ABORT_WW_CONFLICT)) = Some r"
        by (auto split: option.splits)
      note ff = acquire_frame_fields[OF stm_commit_acquire_frame[OF a]]
      from ff inv have inv1: "read_set_within_snapshot tx1"
        by (simp add: read_set_within_snapshot_def)
      show ?thesis
      proof (cases ok)
        case False
        with r obtain r0 where r0: "stm_rollback tx1 g1 STM_ABORT_WW_CONFLICT = Some r0"
          and rr: "r = then_return r0 0" by auto
        from t rr have "result_tx r0 = Some tx'" by simp
        from stm_rollback_within_snapshot[OF r0 this inv1] show ?thesis .
      next
        case True
        with r have l: "stm_commit_locked tx1 g1 = Some r" by simp
        let ?g1 = "g1\<lparr>gclock := gclock g1 + 1\<rparr>"
        have ce: "\<And>gg. read_set_within_snapshot (tx1\<lparr>tx_status := TX_COMMITTED\<rparr>)"
          using inv1 by (simp add: read_set_within_snapshot_def)
        show ?thesis
        proof (cases "tx_start tx1 = gclock g1")
          case True
          with l t ce show ?thesis by (auto simp: stm_commit_locked_eq stm_commit_end_def)
        next
          case ns: False
          show ?thesis
          proof (cases "stm_validate tx1 ?g1")
            case (Inl f)
            with ns l t show ?thesis by (auto simp: stm_commit_locked_eq)
          next
            case (Inr okv)
            show ?thesis
            proof (cases okv)
              case True
              with ns Inr l t ce show ?thesis
                by (auto simp: stm_commit_locked_eq stm_commit_end_def)
            next
              case False
              with ns Inr l obtain r0 where r0: "stm_rollback tx1 ?g1 STM_ABORT_VALIDATE = Some r0"
                and rr: "r = then_return r0 0"
                by (auto simp: stm_commit_locked_eq)
              from t rr have "result_tx r0 = Some tx'" by simp
              from stm_rollback_within_snapshot[OF r0 this inv1] show ?thesis .
            qed
          qed
        qed
      qed
    qed
  qed
qed

text \<open>
  Claim C7, as amended. No read-set entry's recorded version exceeds \<open>tx.end\<close>, and
  this is kept by a load (the snapshot and the stripe's version being at most the clock),
  by a snapshot extension, by a store, by a commit and by a rollback. It is kept by
  \<^verbatim>\<open>stm_set_extension\<close> when no timestamp is passed, or when the timestamp passed is
  not below any version recorded in the read set.
\<close>

theorem read_set_within_snapshot_preserved:
  assumes "read_set_within_snapshot tx"
  shows "(tx_end tx \<le> gclock g \<and> LOCK_GET_TIMESTAMP (locks g (GET_LOCK addr)) \<le> gclock g \<longrightarrow>
            (\<forall>r tx'. stm_read_invisible tx g addr = Some r \<and> result_tx r = Some tx' \<longrightarrow>
                     read_set_within_snapshot tx'))
       \<and> (tx_end tx \<le> gclock g \<longrightarrow>
            (\<forall>ok tx'. stm_extend tx g = Inr (ok, tx') \<longrightarrow> read_set_within_snapshot tx'))
       \<and> (\<forall>val msk r tx'. stm_write tx g addr val msk = Some r \<and> result_tx r = Some tx' \<longrightarrow>
                     read_set_within_snapshot tx')
       \<and> (\<forall>r tx'. stm_commit tx g = Some r \<and> result_tx r = Some tx' \<longrightarrow>
                     read_set_within_snapshot tx')
       \<and> (\<forall>reason r tx'. stm_rollback tx g reason = Some r \<and> result_tx r = Some tx' \<longrightarrow>
                     read_set_within_snapshot tx')
       \<and> read_set_within_snapshot (stm_set_extension tx enable None)
       \<and> (list_all (\<lambda>r. r_version r \<le> ts) (r_entries (r_set tx)) \<longrightarrow>
            read_set_within_snapshot (stm_set_extension tx enable (Some ts)))"
  using assms
  by (intro conjI impI allI)
     (blast intro: stm_read_invisible_within_snapshot stm_extend_within_snapshot
        stm_write_within_snapshot stm_commit_within_snapshot stm_rollback_within_snapshot
        stm_set_extension_within_snapshot)+

text \<open>
  The claim as written fails: \<^verbatim>\<open>stm_set_extension\<close> lowers \<open>tx.end\<close> to any
  smaller timestamp it is given. Here the read set holds versions 3 and 2, and the
  timestamp 1 leaves both above the new \<open>tx.end\<close>.
\<close>

lemma ex_committing_within_snapshot: "read_set_within_snapshot ex_tx_committing"
  by (simp add: read_set_within_snapshot_def ex_defs)

theorem set_extension_clamp_counterexample:
  "read_set_within_snapshot ex_tx_committing \<and>
   tx_end (stm_set_extension ex_tx_committing 1 (Some 1)) = 1 \<and>
   r_entries (r_set (stm_set_extension ex_tx_committing 1 (Some 1)))
     = [\<lparr>r_version = 3, r_lock = 5\<rparr>, \<lparr>r_version = 2, r_lock = 7\<rparr>] \<and>
   \<not> read_set_within_snapshot (stm_set_extension ex_tx_committing 1 (Some 1))"
  by (simp add: read_set_within_snapshot_def stm_set_extension_def ex_defs word_le_nat_alt)

lemma ex_old_load:
  "stm_read_invisible ex_tx_old ex_global 160 = Some (Returns 0 ex_tx_old_loaded ex_global)"
proof -
  have un: "LOCK_GET_WRITE (locks ex_global (GET_LOCK 160)) = 0"
    by (simp add: ex_GET_LOCK_160 ex_global_def LOCK_GET_WRITE_def WRITE_MASK_def)
  have e: "stm_extend ex_tx_old ex_global = Inr (True, ex_tx_old\<lparr>tx_end := 10\<rparr>)"
    by (simp add: stm_extend_def stm_validate_def Let_def ex_tx_old_def ex_defs VERSION_MAX_val
        LOCK_GET_OWNED_def OWNED_MASK_def LOCK_GET_TIMESTAMP_def OWNED_BITS_def)
  have a: "IS_ACTIVE (tx_status ex_tx_old)" "stm_has_written ex_tx_old 160 = None"
    "\<not> tx_ro ex_tx_old" "tx_can_extend ex_tx_old"
    "LOCK_GET_TIMESTAMP (locks ex_global (GET_LOCK 160)) > tx_end ex_tx_old"
    by (simp_all add: ex_GET_LOCK_160)
       (simp_all add: ex_tx_old_def ex_defs IS_ACTIVE_def stm_has_written_def
          LOCK_GET_TIMESTAMP_def OWNED_BITS_def word_less_nat_alt)
  show ?thesis
    using a
    by (simp add: stm_read_invisible_def Let_def stm_read_loop_unowned[OF un] e)
       (simp add: ex_tx_old_loaded_def ex_tx_old_def ex_defs ex_GET_LOCK_160
          LOCK_GET_TIMESTAMP_def OWNED_BITS_def)
qed

lemma ex_old_within_snapshot: "read_set_within_snapshot ex_tx_old"
  by (simp add: read_set_within_snapshot_def ex_tx_old_def ex_defs)

theorem read_set_within_snapshot_preserved_witness:
  "read_set_within_snapshot ex_tx_old \<and>
   tx_end ex_tx_old \<le> gclock ex_global \<and>
   LOCK_GET_TIMESTAMP (locks ex_global (GET_LOCK 160)) \<le> gclock ex_global \<and>
   stm_read_invisible ex_tx_old ex_global 160 = Some (Returns 0 ex_tx_old_loaded ex_global) \<and>
   tx_end ex_tx_old_loaded = 10 \<and>
   read_set_within_snapshot ex_tx_old_loaded \<and>
   list_all (\<lambda>r. r_version r \<le> 5) (r_entries (r_set ex_tx_old)) \<and>
   read_set_within_snapshot (stm_set_extension ex_tx_old 1 (Some 5))"
proof -
  note t = read_set_within_snapshot_preserved[OF ex_old_within_snapshot]
  have h: "tx_end ex_tx_old \<le> gclock ex_global \<and>
           LOCK_GET_TIMESTAMP (locks ex_global (GET_LOCK 160)) \<le> gclock ex_global"
    by (simp add: ex_GET_LOCK_160)
       (simp add: ex_tx_old_def ex_defs LOCK_GET_TIMESTAMP_def OWNED_BITS_def word_le_nat_alt)
  have rt: "stm_read_invisible ex_tx_old ex_global 160 = Some (Returns 0 ex_tx_old_loaded ex_global) \<and>
            result_tx (Returns (0::stm_word) ex_tx_old_loaded ex_global) = Some ex_tx_old_loaded"
    using ex_old_load by simp
  have 1: "read_set_within_snapshot ex_tx_old_loaded"
    by (rule t[of ex_global 160, THEN conjunct1, THEN mp, OF h, THEN spec, THEN spec, THEN mp, OF rt])
  have l5: "list_all (\<lambda>r. r_version r \<le> 5) (r_entries (r_set ex_tx_old))"
    by (simp add: ex_tx_old_def ex_defs word_le_nat_alt)
  have 2: "read_set_within_snapshot (stm_set_extension ex_tx_old 1 (Some 5))"
    by (rule t[of _ _ 1 5, THEN conjunct2, THEN conjunct2, THEN conjunct2, THEN conjunct2,
               THEN conjunct2, THEN conjunct2, THEN mp, OF l5])
  have e: "tx_end ex_tx_old_loaded = 10" by (simp add: ex_tx_old_loaded_def)
  show ?thesis
    by (intro conjI)
       (rule ex_old_within_snapshot, rule h[THEN conjunct1], rule h[THEN conjunct2],
        rule ex_old_load, rule e, rule 1, rule l5, rule 2)
qed

section \<open>Reading one's own writes (claim C6)\<close>

































end
